theory Spec2Isabelle
  imports Complex_Main
begin

section \<open>Lunar lander: terrain, craft dynamics and landing evaluation\<close>

text \<open>
  A shallow embedding of \<^verbatim>\<open>lunarlander-o3.py\<close>. Python integers are \<^typ>\<open>int\<close>.
  A Python float is the real number it denotes, and every floating-point operation of the
  source is an operation of a \<open>float_ops\<close> environment that the definitions take as
  their first argument: the four arithmetic operations round the exact result with
  \<open>rnd\<close>, and the library functions the source calls (\<^verbatim>\<open>sum\<close>, \<^verbatim>\<open>math.hypot\<close>,
  \<^verbatim>\<open>math.sin\<close>, \<^verbatim>\<open>math.cos\<close>, \<^verbatim>\<open>math.radians\<close>) are functions of the
  environment. The properties are proved for every environment; \<open>double_ops\<close> is the
  environment of binary64 arithmetic. Every exception the modelled code can raise is a
  value of \<open>py_error\<close>, and a function that may raise returns \<open>py_error + 'a\<close>.
\<close>

subsection \<open>Python helpers\<close>

datatype py_error = IndexError | ZeroDivisionError | ValueError

definition WIDTH :: int where
  "WIDTH = 1200"

definition HEIGHT :: int where
  "HEIGHT = 800"

text \<open>List indexing \<^verbatim>\<open>xs[i]\<close>: a negative index counts from the end, an index out of
  range raises.\<close>

definition py_index :: "'a list \<Rightarrow> int \<Rightarrow> py_error + 'a" where
  "py_index xs i =
     (if 0 \<le> i \<and> i < int (length xs) then Inr (xs ! nat i)
      else if i < 0 \<and> - int (length xs) \<le> i then Inr (xs ! nat (int (length xs) + i))
      else Inl IndexError)"

text \<open>\<^verbatim>\<open>int(r)\<close> on a float truncates toward zero.\<close>

definition py_int :: "real \<Rightarrow> int" where
  "py_int r = (if 0 \<le> r then \<lfloor>r\<rfloor> else \<lceil>r\<rceil>)"

text \<open>\<^verbatim>\<open>range(a, b, s)\<close> for a positive step.\<close>

definition py_range :: "int \<Rightarrow> int \<Rightarrow> int \<Rightarrow> int list" where
  "py_range a b s = map (\<lambda>i. a + int i * s) [0..<nat ((b - a + s - 1) div s)]"

text \<open>
  The random source is a sequence of raw draws \<open>rs\<close> read at a position \<open>k\<close>.
  \<^verbatim>\<open>random.randint(a, b)\<close> returns some integer of \<open>[a, b]\<close> and raises
  \<^verbatim>\<open>ValueError\<close> on an empty range; reducing the raw draw modulo the size of the
  range lets every sequence of draws stand for a run, and every run is obtained from some
  sequence.
\<close>

definition randint :: "int \<Rightarrow> int \<Rightarrow> (nat \<Rightarrow> nat) \<Rightarrow> nat \<Rightarrow> py_error + (int \<times> nat)" where
  "randint a b rs k =
     (if b < a then Inl ValueError
      else Inr (a + int (rs k mod nat (b - a + 1)), Suc k))"

subsection \<open>Floating-point arithmetic\<close>

text \<open>
  \<open>rnd\<close> maps the exact result of an arithmetic operation to the float the operation
  returns; a float literal is \<open>rnd\<close> of its decimal value. Where Python adds, subtracts,
  multiplies or divides an integer and a float, or divides two integers with \<^verbatim>\<open>/\<close>,
  the integer is first the float of the same value, so the operation is the float
  operation on the two values. Comparisons and \<^verbatim>\<open>int()\<close> are exact.
\<close>

record float_ops =
  rnd :: "real \<Rightarrow> real"
  py_sum :: "real list \<Rightarrow> real"
  math_hypot :: "real \<Rightarrow> real \<Rightarrow> real"
  math_sin :: "real \<Rightarrow> real"
  math_cos :: "real \<Rightarrow> real"
  math_radians :: "real \<Rightarrow> real"

definition fl_add :: "float_ops \<Rightarrow> real \<Rightarrow> real \<Rightarrow> real" where
  "fl_add fl a b = rnd fl (a + b)"

definition fl_sub :: "float_ops \<Rightarrow> real \<Rightarrow> real \<Rightarrow> real" where
  "fl_sub fl a b = rnd fl (a - b)"

definition fl_mul :: "float_ops \<Rightarrow> real \<Rightarrow> real \<Rightarrow> real" where
  "fl_mul fl a b = rnd fl (a * b)"

definition fl_div :: "float_ops \<Rightarrow> real \<Rightarrow> real \<Rightarrow> real" where
  "fl_div fl a b = rnd fl (a / b)"

text \<open>
  Binary64 with rounding to nearest, ties to even: a nonzero real is rounded to a multiple
  of the unit in the last place of its binade (53 significant bits; for magnitudes below
  2 to the power -1022 the unit stays 2 to the power -1074). Overflow to infinity is
  outside the model. In \<open>double_ops\<close> the library functions return the correctly
  rounded value, \<^verbatim>\<open>sum\<close> adds from the left starting at 0, and \<^verbatim>\<open>math.radians\<close>
  multiplies by the float quotient of the float of \<open>pi\<close> and 180. CPython from 3.12 on
  compensates the float sum; the properties proved for every environment hold for any
  sum, and the sums evaluated below round to the same double either way. In \<open>exact_ops\<close>
  nothing is rounded: it is the program read over the reals.
\<close>

definition round_half_even :: "real \<Rightarrow> int" where
  "round_half_even r =
     (if r - of_int \<lfloor>r\<rfloor> < 1 / 2 then \<lfloor>r\<rfloor>
      else if r - of_int \<lfloor>r\<rfloor> > 1 / 2 then \<lfloor>r\<rfloor> + 1
      else if even \<lfloor>r\<rfloor> then \<lfloor>r\<rfloor> else \<lfloor>r\<rfloor> + 1)"

definition ulp :: "real \<Rightarrow> real" where
  "ulp r = 2 powr of_int (max \<lfloor>log 2 \<bar>r\<bar>\<rfloor> (- 1022) - 52)"

definition round_double :: "real \<Rightarrow> real" where
  "round_double r = (if r = 0 then 0 else of_int (round_half_even (r / ulp r)) * ulp r)"

definition double_ops :: float_ops where
  "double_ops =
     \<lparr>rnd = round_double,
      py_sum = foldl (\<lambda>acc h. round_double (acc + h)) 0,
      math_hypot = (\<lambda>a b. round_double (sqrt (a\<^sup>2 + b\<^sup>2))),
      math_sin = (\<lambda>r. round_double (sin r)),
      math_cos = (\<lambda>r. round_double (cos r)),
      math_radians = (\<lambda>d. round_double (d * round_double (round_double pi / 180)))\<rparr>"

definition exact_ops :: float_ops where
  "exact_ops =
     \<lparr>rnd = (\<lambda>r. r),
      py_sum = sum_list,
      math_hypot = (\<lambda>a b. sqrt (a\<^sup>2 + b\<^sup>2)),
      math_sin = sin,
      math_cos = cos,
      math_radians = (\<lambda>d. d * (pi / 180))\<rparr>"

subsection \<open>Terrain height field\<close>

type_synonym point = "int \<times> real"

text \<open>
  \<^verbatim>\<open>int(x // step)\<close> is the floor of the exact quotient. \<^verbatim>\<open>x\<close> is a float in the main
  loop and an integer in the generator, where \<^verbatim>\<open>x - p1[0]\<close> is an exact integer
  subtraction: rounding it, as here, leaves an integer of this size as it is in binary64.
\<close>

definition get_terrain_height :: "float_ops \<Rightarrow> real \<Rightarrow> point list \<Rightarrow> int \<Rightarrow> py_error + real" where
  "get_terrain_height fl xq points step =
     (if xq \<le> 0 then
        (case py_index points 0 of Inl e \<Rightarrow> Inl e | Inr p \<Rightarrow> Inr (snd p))
      else if xq \<ge> of_int WIDTH then
        (case py_index points (- 1) of Inl e \<Rightarrow> Inl e | Inr p \<Rightarrow> Inr (snd p))
      else if step = 0 then Inl ZeroDivisionError
      else
        (let idx = \<lfloor>xq / of_int step\<rfloor> in
         case py_index points idx of
           Inl e \<Rightarrow> Inl e
         | Inr p1 \<Rightarrow>
            (case py_index points (min (idx + 1) (int (length points) - 1)) of
               Inl e \<Rightarrow> Inl e
             | Inr p2 \<Rightarrow>
                if fst p2 - fst p1 = 0 then Inl ZeroDivisionError
                else
                  (let t = fl_div fl (fl_sub fl xq (of_int (fst p1))) (of_int (fst p2 - fst p1))
                   in Inr (fl_add fl (fl_mul fl (snd p1) (fl_sub fl 1 t))
                                     (fl_mul fl (snd p2) t))))))"

text \<open>One pass of the body of the outer loop of \<^verbatim>\<open>smooth_terrain\<close>: the two additions and
  the division of the average are float operations.\<close>

definition smooth_pass :: "float_ops \<Rightarrow> point list \<Rightarrow> py_error + point list" where
  "smooth_pass fl points =
     (if points = [] then Inl IndexError
      else Inr ([points ! 0]
                @ map (\<lambda>i. (fst (points ! i),
                             fl_div fl (fl_add fl (fl_add fl (snd (points ! (i - 1)))
                                                           (snd (points ! i)))
                                                (snd (points ! (i + 1)))) 3))
                      [1..<length points - 1]
                @ [last points]))"

fun smooth_terrain :: "float_ops \<Rightarrow> point list \<Rightarrow> nat \<Rightarrow> py_error + point list" where
  "smooth_terrain fl points 0 = Inr points"
| "smooth_terrain fl points (Suc n) =
     (case smooth_pass fl points of
        Inl e \<Rightarrow> Inl e
      | Inr new_points \<Rightarrow> smooth_terrain fl new_points n)"

subsection \<open>Landing zones\<close>

text \<open>\<^verbatim>\<open>pygame.Rect\<close> holds integers; \<open>left\<close> is \<open>x\<close> and \<open>right\<close> is \<open>x + width\<close>.\<close>

record rect =
  rect_x :: int
  rect_y :: int
  rect_width :: int
  rect_height :: int

definition rect_left :: "rect \<Rightarrow> int" where
  "rect_left r = rect_x r"

definition rect_right :: "rect \<Rightarrow> int" where
  "rect_right r = rect_x r + rect_width r"

record landing_zone =
  zone_rect :: rect
  maxLandingSpeed :: real
  label :: string

definition LandingZone :: "int \<Rightarrow> int \<Rightarrow> int \<Rightarrow> int \<Rightarrow> real \<Rightarrow> string \<Rightarrow> landing_zone" where
  "LandingZone xr yr w h mls lbl =
     \<lparr>zone_rect = \<lparr>rect_x = xr, rect_y = yr, rect_width = w, rect_height = h\<rparr>,
      maxLandingSpeed = mls, label = lbl\<rparr>"

subsection \<open>Terrain generator\<close>

fun rough_points :: "(nat \<Rightarrow> nat) \<Rightarrow> nat \<Rightarrow> int list \<Rightarrow> py_error + (point list \<times> nat)" where
  "rough_points rs k [] = Inr ([], k)"
| "rough_points rs k (xc # xs) =
     (case randint (HEIGHT - 300) (HEIGHT - 100) rs k of
        Inl e \<Rightarrow> Inl e
      | Inr (yc, k') \<Rightarrow>
         (case rough_points rs k' xs of
            Inl e \<Rightarrow> Inl e
          | Inr (ps, k'') \<Rightarrow> Inr ((xc, of_int yc) # ps, k'')))"

text \<open>The state of the placement loop: the variables it reads and writes, and the position
  in the random source.\<close>

record gen_state =
  terrain_points :: "point list"
  landing_zones :: "landing_zone list"
  used_zones :: "(int \<times> int) list"
  attempts :: nat
  rng_pos :: nat

fun overlap_check :: "int \<Rightarrow> int \<Rightarrow> (int \<times> int) list \<Rightarrow> bool" where
  "overlap_check pad_x pad_right [] = False"
| "overlap_check pad_x pad_right (zone # zones) =
     (if \<not> (pad_right < fst zone \<or> pad_x > snd zone) then True
      else overlap_check pad_x pad_right zones)"

fun sample_heights :: "float_ops \<Rightarrow> int list \<Rightarrow> point list \<Rightarrow> int \<Rightarrow> py_error + real list" where
  "sample_heights fl [] points step = Inr []"
| "sample_heights fl (xc # xs) points step =
     (case get_terrain_height fl (of_int xc) points step of
        Inl e \<Rightarrow> Inl e
      | Inr h \<Rightarrow>
         (case sample_heights fl xs points step of
            Inl e \<Rightarrow> Inl e
          | Inr hs \<Rightarrow> Inr (h # hs)))"

definition flatten :: "int \<Rightarrow> int \<Rightarrow> real \<Rightarrow> point list \<Rightarrow> point list" where
  "flatten pad_x pad_right pad_y points =
     map (\<lambda>(tx, ty). if pad_x \<le> tx \<and> tx \<le> pad_right then (tx, pad_y) else (tx, ty)) points"

text \<open>The body of the \<^verbatim>\<open>while\<close> loop: one placement attempt. \<open>pad_y\<close> is the float
  quotient of \<^verbatim>\<open>sum(samples)\<close> and the number of samples.\<close>

definition attempt :: "float_ops \<Rightarrow> (nat \<Rightarrow> nat) \<Rightarrow> gen_state \<Rightarrow> py_error + gen_state" where
  "attempt fl rs s =
     (let s1 = s\<lparr>attempts := attempts s + 1\<rparr> in
      case randint 80 150 rs (rng_pos s1) of
        Inl e \<Rightarrow> Inl e
      | Inr (pad_width, k1) \<Rightarrow>
         (case randint 50 (WIDTH - pad_width - 50) rs k1 of
            Inl e \<Rightarrow> Inl e
          | Inr (pad_x, k2) \<Rightarrow>
             (let pad_right = pad_x + pad_width;
                  s2 = s1\<lparr>rng_pos := k2\<rparr>
              in if overlap_check pad_x pad_right (used_zones s2) then Inr s2
                 else
                   (case sample_heights fl (py_range pad_x (pad_right + 1) 20) (terrain_points s2) 20 of
                      Inl e \<Rightarrow> Inl e
                    | Inr samples \<Rightarrow>
                       if samples = [] then Inr s2
                       else
                         (let pad_y = fl_div fl (py_sum fl samples) (of_nat (length samples));
                              pad_thickness = 10;
                              zr = \<lparr>rect_x = pad_x,
                                    rect_y = py_int (fl_sub fl pad_y (of_int pad_thickness)),
                                    rect_width = pad_width, rect_height = pad_thickness\<rparr>
                          in Inr (s2\<lparr>terrain_points := flatten pad_x pad_right pad_y (terrain_points s2),
                                     landing_zones := landing_zones s2 @
                                       [LandingZone (rect_x zr) (rect_y zr) (rect_width zr)
                                          (rect_height zr) 2 ''Pad''],
                                     used_zones := used_zones s2 @ [(pad_x, pad_right)]\<rparr>))))))"

function place_pads :: "float_ops \<Rightarrow> (nat \<Rightarrow> nat) \<Rightarrow> gen_state \<Rightarrow> py_error + gen_state" where
  "place_pads fl rs s =
     (if length (landing_zones s) < 3 \<and> attempts s < 20 then
        (case attempt fl rs s of Inl e \<Rightarrow> Inl e | Inr s' \<Rightarrow> place_pads fl rs s')
      else Inr s)"
  by pat_completeness auto
termination
  by (relation "measure (\<lambda>(fl, rs, s). 20 - attempts s)")
     (auto simp: attempt_def Let_def split: sum.splits prod.splits if_splits)

declare place_pads.simps [simp del]

text \<open>Terrain generation up to the end of the placement loop, returning the final loop
  state; \<open>generate_terrain_and_landing_zones\<close> returns the two components the source
  returns.\<close>

definition generate_state :: "float_ops \<Rightarrow> (nat \<Rightarrow> nat) \<Rightarrow> py_error + gen_state" where
  "generate_state fl rs =
     (case rough_points rs 0 (py_range 0 (WIDTH + 1) 20) of
        Inl e \<Rightarrow> Inl e
      | Inr (raw, k) \<Rightarrow>
         (case smooth_terrain fl raw 3 of
            Inl e \<Rightarrow> Inl e
          | Inr smoothed \<Rightarrow>
             place_pads fl rs \<lparr>terrain_points = smoothed, landing_zones = [], used_zones = [],
                               attempts = 0, rng_pos = k\<rparr>))"

definition generate_terrain_and_landing_zones ::
    "float_ops \<Rightarrow> (nat \<Rightarrow> nat) \<Rightarrow> py_error + (point list \<times> landing_zone list)" where
  "generate_terrain_and_landing_zones fl rs =
     (case generate_state fl rs of
        Inl e \<Rightarrow> Inl e
      | Inr s \<Rightarrow> Inr (terrain_points s, landing_zones s))"

subsection \<open>Craft dynamics\<close>

record lander =
  lander_x :: real
  lander_y :: real
  vx :: real
  vy :: real
  angle :: real
  fuel :: real
  gravity :: real
  thrust :: real
  fuelConsumptionRate :: real

definition Lander :: "float_ops \<Rightarrow> real \<Rightarrow> lander" where
  "Lander fl g =
     \<lparr>lander_x = of_int (WIDTH div 2), lander_y = 100, vx = 0, vy = 0, angle = 0,
      fuel = 100, gravity = g, thrust = rnd fl 0.2, fuelConsumptionRate = 20\<rparr>"

text \<open>\<^verbatim>\<open>Lander.update\<close>, statement by statement.\<close>

definition apply_thrust :: "float_ops \<Rightarrow> real \<Rightarrow> lander \<Rightarrow> lander" where
  "apply_thrust fl dt l =
     (let rad = math_radians fl (angle l);
          ax = fl_mul fl (- thrust l) (math_sin fl rad);
          ay = fl_mul fl (- thrust l) (math_cos fl rad);
          l1 = l\<lparr>vx := fl_add fl (vx l) ax\<rparr>;
          l2 = l1\<lparr>vy := fl_add fl (vy l1) ay\<rparr>;
          l3 = l2\<lparr>fuel := fl_sub fl (fuel l2) (fl_mul fl (fuelConsumptionRate l2) dt)\<rparr>
      in if fuel l3 < 0 then l3\<lparr>fuel := 0\<rparr> else l3)"

definition update :: "float_ops \<Rightarrow> real \<Rightarrow> bool \<Rightarrow> lander \<Rightarrow> lander" where
  "update fl dt thrusting l =
     (let l1 = l\<lparr>vy := fl_add fl (vy l) (gravity l)\<rparr>;
          l2 = (if thrusting \<and> fuel l1 > 0 then apply_thrust fl dt l1 else l1);
          l3 = l2\<lparr>lander_x := fl_add fl (lander_x l2) (vx l2)\<rparr>
      in l3\<lparr>lander_y := fl_add fl (lander_y l3) (vy l3)\<rparr>)"

text \<open>A sequence of calls, each with its own \<open>dt\<close> and thrust flag.\<close>

fun updates :: "float_ops \<Rightarrow> (real \<times> bool) list \<Rightarrow> lander \<Rightarrow> lander" where
  "updates fl [] l = l"
| "updates fl ((dt, thrusting) # ins) l = updates fl ins (update fl dt thrusting l)"

subsection \<open>Landing evaluation (the collision block of the main loop)\<close>

datatype game_state = Menu | Playing | Landed | Crashed

record game =
  the_lander :: lander
  score :: int
  state :: game_state

fun find_zone :: "landing_zone list \<Rightarrow> real \<Rightarrow> landing_zone option" where
  "find_zone [] xq = None"
| "find_zone (lz # lzs) xq =
     (if of_int (rect_left (zone_rect lz)) \<le> xq \<and> xq \<le> of_int (rect_right (zone_rect lz))
      then Some lz else find_zone lzs xq)"

definition collision ::
    "float_ops \<Rightarrow> point list \<Rightarrow> landing_zone list \<Rightarrow> game \<Rightarrow> py_error + game" where
  "collision fl points zones g =
     (let l = the_lander g in
      case get_terrain_height fl (lander_x l) points 20 of
        Inl e \<Rightarrow> Inl e
      | Inr ground_y \<Rightarrow>
         (let lander_bottom = fl_add fl (lander_y l) 15 in
          if lander_bottom \<ge> ground_y then
            (let in_zone = find_zone zones (lander_x l);
                 speed = math_hypot fl (vx l) (vy l);
                 g1 = (case in_zone of
                         None \<Rightarrow> g\<lparr>state := Crashed\<rparr>
                       | Some lz \<Rightarrow>
                          if speed \<le> maxLandingSpeed lz then
                            (let bonus = max 0 (py_int (fl_mul fl (fl_sub fl (maxLandingSpeed lz) speed) 50))
                             in g\<lparr>score := score g + (py_int (fuel l) + bonus), state := Landed\<rparr>)
                          else g\<lparr>state := Crashed\<rparr>)
             in Inr (g1\<lparr>the_lander := l\<lparr>vx := 0, vy := 0\<rparr>\<rparr>))
          else Inr g))"

text \<open>One pass of the main loop while playing: rotation, physics, the clamp of \<open>x\<close> to
  the screen, and the collision block. Outside the playing state nothing of the simulation
  changes.\<close>

definition play_frame ::
    "float_ops \<Rightarrow> point list \<Rightarrow> landing_zone list \<Rightarrow> real \<Rightarrow> bool \<Rightarrow> bool \<Rightarrow> bool \<Rightarrow> game
       \<Rightarrow> py_error + game" where
  "play_frame fl points zones dt key_left key_right thrusting g =
     (if state g = Playing then
        (let l0 = the_lander g;
             l1 = (if key_left then l0\<lparr>angle := fl_add fl (angle l0) (fl_mul fl 100 dt)\<rparr> else l0);
             l2 = (if key_right then l1\<lparr>angle := fl_sub fl (angle l1) (fl_mul fl 100 dt)\<rparr> else l1);
             l3 = update fl dt thrusting l2;
             l4 = (if lander_x l3 < 0 then l3\<lparr>lander_x := 0\<rparr> else l3);
             l5 = (if lander_x l4 > of_int WIDTH then l4\<lparr>lander_x := of_int WIDTH\<rparr> else l4)
         in collision fl points zones (g\<lparr>the_lander := l5\<rparr>))
      else Inr g)"

fun play_frames ::
    "float_ops \<Rightarrow> point list \<Rightarrow> landing_zone list \<Rightarrow> (real \<times> bool \<times> bool \<times> bool) list \<Rightarrow> game
       \<Rightarrow> py_error + game" where
  "play_frames fl points zones [] g = Inr g"
| "play_frames fl points zones ((dt, kl, kr, th) # ins) g =
     (case play_frame fl points zones dt kl kr th g of
        Inl e \<Rightarrow> Inl e
      | Inr g' \<Rightarrow> play_frames fl points zones ins g')"

text \<open>The game when the main loop starts: a fresh lander, no score, the playing state.\<close>

definition new_game :: "float_ops \<Rightarrow> real \<Rightarrow> game" where
  "new_game fl grav = \<lparr>the_lander = Lander fl grav, score = 0, state = Playing\<rparr>"

subsection \<open>Notions the properties are stated with\<close>

text \<open>A height profile with one sample at each of \<open>x = 0, 20, 40, \<dots>, WIDTH\<close>.\<close>

definition grid_profile :: "point list \<Rightarrow> bool" where
  "grid_profile points \<longleftrightarrow> map fst points = py_range 0 (WIDTH + 1) 20"

text \<open>A sample profile on the grid: a ramp that rises by 3 per sample.\<close>

definition ramp_profile :: "point list" where
  "ramp_profile = map (\<lambda>i. (20 * int i, 500 + 3 * real i)) [0..<61]"

text \<open>
  The second difference of the heights at an interior sample, and the largest magnitude
  of the second differences over the interior samples.
\<close>

definition second_diff :: "point list \<Rightarrow> nat \<Rightarrow> real" where
  "second_diff points i = snd (points ! (i - 1)) - 2 * snd (points ! i) + snd (points ! (i + 1))"

definition max_second_diff :: "point list \<Rightarrow> real" where
  "max_second_diff points =
     Max (set (map (\<lambda>i. \<bar>second_diff points i\<bar>) [1..<length points - 1]))"

text \<open>
  The rounding error of the average that \<open>smooth_pass\<close> computes at an interior sample:
  its distance from the exact average of the three heights.
\<close>

definition smooth_error :: "float_ops \<Rightarrow> point list \<Rightarrow> nat \<Rightarrow> real" where
  "smooth_error fl points i =
     \<bar>fl_div fl (fl_add fl (fl_add fl (snd (points ! (i - 1))) (snd (points ! i)))
                         (snd (points ! (i + 1)))) 3
      - (snd (points ! (i - 1)) + snd (points ! i) + snd (points ! (i + 1))) / 3\<bar>"




definition squares_profile :: "point list" where
  "squares_profile =
     [(0, 500), (20, 501), (40, 504), (60, 509), (80, 516), (100, 525), (120, 536)]"

text \<open>
  The invariant of the placement loop. The x-range of a pad is its \<open>(left, right)\<close>; a
  range is in bounds when it keeps the margin of 50 and its width is between 80 and 150;
  a list of ranges is disjoint when no two of them share a point.
\<close>

definition zone_span :: "landing_zone \<Rightarrow> int \<times> int" where
  "zone_span z = (rect_left (zone_rect z), rect_right (zone_rect z))"

definition span_ok :: "int \<times> int \<Rightarrow> bool" where
  "span_ok z \<longleftrightarrow> 50 \<le> fst z \<and> snd z \<le> WIDTH - 50 \<and> 80 \<le> snd z - fst z \<and> snd z - fst z \<le> 150"

fun spans_disjoint :: "(int \<times> int) list \<Rightarrow> bool" where
  "spans_disjoint [] = True"
| "spans_disjoint (z # zs) = (list_all (\<lambda>u. snd z < fst u \<or> fst z > snd u) zs \<and> spans_disjoint zs)"

definition gen_inv :: "gen_state \<Rightarrow> bool" where
  "gen_inv s \<longleftrightarrow>
     grid_profile (terrain_points s) \<and>
     used_zones s = map zone_span (landing_zones s) \<and>
     list_all span_ok (used_zones s) \<and>
     spans_disjoint (used_zones s) \<and>
     length (landing_zones s) \<le> 3 \<and>
     attempts s \<le> 20"

text \<open>
  Sample runs of the generator. With the raw height draws \<open>0, 3, 6, \<dots>\<close> the rough
  terrain is the ramp, which the moving average leaves as it is, in binary64 too. After
  the 61 height draws, \<open>ramp_draws\<close> draws the pad \<open>(width 80, x 50)\<close> at every attempt;
  \<open>touch_draws\<close> draws \<open>(80, 50)\<close>, then \<open>(80, 130)\<close>, whose left edge is the first
  pad's right edge, then \<open>(80, 50)\<close> again; \<open>three_pad_draws\<close> draws \<open>(80, 50)\<close>,
  \<open>(80, 200)\<close> and \<open>(80, 400)\<close>. The states are the loop states these runs go through.
\<close>

definition ramp_start :: gen_state where
  "ramp_start = \<lparr>terrain_points = ramp_profile, landing_zones = [], used_zones = [],
                  attempts = 0, rng_pos = 61\<rparr>"

definition ramp_one_pad :: gen_state where
  "ramp_one_pad =
     \<lparr>terrain_points = flatten 50 130 513.5 ramp_profile,
      landing_zones = [LandingZone 50 503 80 10 2 ''Pad''],
      used_zones = [(50, 130)], attempts = 1, rng_pos = 63\<rparr>"

definition ramp_draws :: "nat \<Rightarrow> nat" where
  "ramp_draws k = (if k < 61 then 3 * k else 0)"

definition touch_draws :: "nat \<Rightarrow> nat" where
  "touch_draws k = (if k < 61 then 3 * k else if k = 64 then 80 else 0)"

definition three_pad_draws :: "nat \<Rightarrow> nat" where
  "three_pad_draws k = (if k < 61 then 3 * k else if k = 64 then 150 else if k = 66 then 350 else 0)"

definition ramp_two_pads :: gen_state where
  "ramp_two_pads =
     \<lparr>terrain_points = flatten 200 280 536 (flatten 50 130 513.5 ramp_profile),
      landing_zones = [LandingZone 50 503 80 10 2 ''Pad'', LandingZone 200 526 80 10 2 ''Pad''],
      used_zones = [(50, 130), (200, 280)], attempts = 2, rng_pos = 65\<rparr>"

definition ramp_three_pads :: gen_state where
  "ramp_three_pads =
     \<lparr>terrain_points = flatten 400 480 566 (flatten 200 280 536 (flatten 50 130 513.5 ramp_profile)),
      landing_zones = [LandingZone 50 503 80 10 2 ''Pad'', LandingZone 200 526 80 10 2 ''Pad'',
                       LandingZone 400 556 80 10 2 ''Pad''],
      used_zones = [(50, 130), (200, 280), (400, 480)], attempts = 3, rng_pos = 67\<rparr>"

text \<open>
  A pad contains an \<open>x\<close> when \<open>left \<le> x \<le> right\<close>; the pad at index \<open>i\<close> is the first
  one in creation order that contains it. \<open>touchdown\<close> is a craft over the pad of
  \<open>ramp_one_pad\<close>, descending at speed 1 with 47.6 units of fuel (the double nearest to
  47.6); \<open>touchdown_fast\<close> descends at speed 1.3 with 68.72 units of fuel (the doubles
  nearest to them).
\<close>

definition pad_contains :: "landing_zone \<Rightarrow> real \<Rightarrow> bool" where
  "pad_contains lz xq \<longleftrightarrow>
     of_int (rect_left (zone_rect lz)) \<le> xq \<and> xq \<le> of_int (rect_right (zone_rect lz))"

definition first_pad_at :: "landing_zone list \<Rightarrow> real \<Rightarrow> nat \<Rightarrow> bool" where
  "first_pad_at zones xq i \<longleftrightarrow>
     i < length zones \<and> pad_contains (zones ! i) xq \<and> (\<forall>j<i. \<not> pad_contains (zones ! j) xq)"

definition touchdown :: game where
  "touchdown =
     \<lparr>the_lander = \<lparr>lander_x = 90, lander_y = 500, vx = 0, vy = 1, angle = 0,
                     fuel = 6699104445713613 / 140737488355328,
                     gravity = 0.125, thrust = 0.25, fuelConsumptionRate = 20\<rparr>,
      score = 0, state = Playing\<rparr>"

definition touchdown_fast :: game where
  "touchdown_fast =
     \<lparr>the_lander = \<lparr>lander_x = 90, lander_y = 500, vx = 0,
                     vy = 5854679515581645 / 4503599627370496, angle = 0,
                     fuel = 2417870049944535 / 35184372088832,
                     gravity = 0.125, thrust = 0.25, fuelConsumptionRate = 20\<rparr>,
      score = 0, state = Playing\<rparr>"

section \<open>Properties\<close>

subsection \<open>Binary64 rounding\<close>

lemma round_half_even_of_int: "round_half_even (of_int q) = q"
  by (simp add: round_half_even_def)

lemma ulp_binade:
  assumes lo: "2 powr of_int e \<le> \<bar>r\<bar>" and hi: "\<bar>r\<bar> < 2 powr of_int (e + 1)" and e: "- 1022 \<le> e"
  shows "ulp r = 2 powr of_int (e - 52)"
proof -
  have "0 < (2::real) powr of_int e" by simp
  then have pos: "0 < \<bar>r\<bar>" using lo by linarith
  have "of_int e \<le> log 2 \<bar>r\<bar>"
    using lo pos by (simp add: le_log_iff)
  moreover have "log 2 \<bar>r\<bar> < of_int (e + 1)"
    using hi pos by (simp add: log_less_iff)
  ultimately have "\<lfloor>log 2 \<bar>r\<bar>\<rfloor> = e"
    by (intro floor_unique) auto
  then show ?thesis using e by (simp add: ulp_def)
qed

text \<open>Rounding a value whose binade is known.\<close>

lemma round_double_binade:
  assumes "2 powr of_int e \<le> \<bar>r\<bar>" and "\<bar>r\<bar> < 2 powr of_int (e + 1)" and "- 1022 \<le> e"
  shows "round_double r =
           of_int (round_half_even (r / 2 powr of_int (e - 52))) * 2 powr of_int (e - 52)"
proof -
  have "0 < (2::real) powr of_int e" by simp
  then have "r \<noteq> 0" using assms(1) by auto
  then show ?thesis using ulp_binade[OF assms] by (simp add: round_double_def)
qed

text \<open>A multiple of \<open>1 / 1024\<close> of magnitude at most \<open>2\<^sup>4\<^sup>0\<close> is a double: rounding leaves
  it as it is.\<close>

lemma round_double_exact:
  assumes mem: "r * 1024 \<in> \<int>" and b: "\<bar>r\<bar> \<le> 1099511627776"
  shows "round_double r = r"
proof (cases "r = 0")
  case True
  then show ?thesis by (simp add: round_double_def)
next
  case False
  obtain m where m: "r * 1024 = of_int m" using mem by (auto elim: Ints_cases)
  have "m \<noteq> 0" using False m by auto
  then have "1 \<le> \<bar>m\<bar>" by linarith
  then have "(1::real) \<le> of_int \<bar>m\<bar>" by (simp only: of_int_1_le_iff)
  then have "1 \<le> \<bar>r * 1024\<bar>" using m by simp
  then have lo: "1 / 1024 \<le> \<bar>r\<bar>" by (simp add: abs_mult)
  define e where "e = \<lfloor>log 2 \<bar>r\<bar>\<rfloor>"
  have pos: "0 < \<bar>r\<bar>" using False by simp
  have p10: "(2::real) powr (- 10) = 1 / 1024" by (simp add: powr_minus_divide)
  have "(2::real) powr (- 10) \<le> \<bar>r\<bar>" using lo by (simp only: p10)
  then have "- 10 \<le> log 2 \<bar>r\<bar>" using pos by (simp add: le_log_iff)
  then have e_lo: "- 10 \<le> e" unfolding e_def by (simp add: le_floor_iff)
  have "\<bar>r\<bar> \<le> 2 powr 40" using b by simp
  then have "log 2 \<bar>r\<bar> \<le> 40" using pos by (simp add: log_le_iff)
  then have e_hi: "e \<le> 40" unfolding e_def by (simp add: floor_le_iff)
  have u: "ulp r = 2 powr of_int (e - 52)"
    using e_lo by (simp add: ulp_def e_def[symmetric])
  define n where "n = nat (42 - e)"
  have n: "of_int (42 - e) = real n" using e_hi by (simp add: n_def)
  have "(2::real) powr of_int (e - 52) * 2 powr of_int (52 - e) = 1"
    by (simp add: powr_add[symmetric])
  then have "r / ulp r = r * 2 powr of_int (52 - e)"
    unfolding u by (simp add: field_simps)
  also have "\<dots> = (r * 1024) * (2 powr (- 10) * 2 powr of_int (52 - e))"
    by (simp only: p10)
  also have "2 powr (- 10) * 2 powr of_int (52 - e) = (2::real) powr of_int (42 - e)"
    by (simp add: powr_add[symmetric])
  also have "\<dots> = 2 ^ n" unfolding n by (simp add: powr_realpow)
  finally have q: "r / ulp r = of_int (m * 2 ^ n)" using m by simp
  then have "round_half_even (r / ulp r) = m * 2 ^ n"
    by (simp only: round_half_even_of_int)
  then have "round_double r = (r / ulp r) * ulp r"
    using False q by (simp add: round_double_def)
  moreover have "ulp r \<noteq> 0" by (simp add: ulp_def)
  ultimately show ?thesis by simp
qed

lemma round_double_of_int: "\<bar>n\<bar> \<le> 1099511627776 \<Longrightarrow> round_double (of_int n) = of_int n"
proof (rule round_double_exact)
  show "real_of_int n * 1024 \<in> \<int>" by simp
  assume "\<bar>n\<bar> \<le> 1099511627776"
  then have "real_of_int \<bar>n\<bar> \<le> real_of_int 1099511627776" by (simp only: of_int_le_iff)
  then show "\<bar>real_of_int n\<bar> \<le> 1099511627776" by simp
qed

lemmas fl_defs = fl_add_def fl_sub_def fl_mul_def fl_div_def

lemma double_ops_simps:
  "rnd double_ops = round_double"
  "py_sum double_ops = foldl (\<lambda>acc h. round_double (acc + h)) 0"
  "math_hypot double_ops = (\<lambda>a b. round_double (sqrt (a\<^sup>2 + b\<^sup>2)))"
  by (simp_all add: double_ops_def)

lemma exact_ops_simps:
  "fl_add exact_ops a b = a + b" "fl_sub exact_ops a b = a - b"
  "fl_mul exact_ops a b = a * b" "fl_div exact_ops a b = a / b"
  "py_sum exact_ops = sum_list" "math_hypot exact_ops a b = sqrt (a\<^sup>2 + b\<^sup>2)"
  by (simp_all add: exact_ops_def fl_defs)

subsection \<open>Craft dynamics\<close>

text \<open>
  C3. One call of \<open>update\<close> adds \<open>gravity\<close> to \<open>vy\<close> with no factor \<open>dt\<close>; when
  thrusting with fuel left it adds \<open>- thrust * sin (radians angle)\<close> to \<open>vx\<close> and
  \<open>- thrust * cos (radians angle)\<close> to \<open>vy\<close>, again with no factor \<open>dt\<close>, and takes
  \<open>fuelConsumptionRate * dt\<close> from the fuel, which is clamped at 0; the position then
  advances by the velocities already updated, with no factor \<open>dt\<close>. Every sum and
  product is the float operation of the code.
\<close>

theorem update_step_exact:
  "update fl dt thrusting l =
     (let burn = thrusting \<and> fuel l > 0;
          vy1 = fl_add fl (vy l) (gravity l);
          rad = math_radians fl (angle l);
          vx' = (if burn then fl_add fl (vx l) (fl_mul fl (- thrust l) (math_sin fl rad)) else vx l);
          vy' = (if burn then fl_add fl vy1 (fl_mul fl (- thrust l) (math_cos fl rad)) else vy1)
      in l\<lparr>lander_x := fl_add fl (lander_x l) vx', lander_y := fl_add fl (lander_y l) vy',
           vx := vx', vy := vy',
           fuel := (if burn then max 0 (fl_sub fl (fuel l) (fl_mul fl (fuelConsumptionRate l) dt))
                    else fuel l)\<rparr>)"
  by (simp add: update_def apply_thrust_def Let_def max_def)

text \<open>
  C7. A craft whose fuel is not negative has fuel that is not negative after one call of
  \<open>update\<close>, and after any sequence of calls, whatever \<open>dt\<close> and the thrust flag are
  (so in particular for every \<open>dt \<ge> 0\<close>), and however the float operations round.
\<close>

theorem fuel_never_negative:
  "0 \<le> fuel l \<Longrightarrow> 0 \<le> fuel (update fl dt thrusting l) \<and> 0 \<le> fuel (updates fl ins l)"
proof -
  have one: "0 \<le> fuel (update fl d t c)" if "0 \<le> fuel c" for d t c
    using that by (simp add: update_def apply_thrust_def Let_def)
  have many: "0 \<le> fuel c \<Longrightarrow> 0 \<le> fuel (updates fl ins c)" for c
    by (induction ins arbitrary: c) (auto simp: one)
  assume "0 \<le> fuel l"
  then show ?thesis
    using one many by blast
qed

theorem fuel_never_negative_witness:
  "0 \<le> fuel (Lander double_ops 0.125) \<and>
   fuel (update double_ops 10 True (Lander double_ops 0.125)) = 0 \<and>
   0 \<le> fuel (update double_ops 10 True (Lander double_ops 0.125)) \<and>
   0 \<le> fuel (updates double_ops [(10, True), (1, True), (1, False)] (Lander double_ops 0.125))"
proof -
  have h: "0 \<le> fuel (Lander double_ops 0.125)"
    by (simp add: Lander_def)
  have c: "fuel (update double_ops 10 True (Lander double_ops 0.125)) = 0"
    by (simp add: update_def apply_thrust_def Let_def Lander_def fl_defs double_ops_simps
        round_double_exact)
  show ?thesis
    using h c
      fuel_never_negative [OF h, of double_ops 10 True "[(10, True), (1, True), (1, False)]"]
    by simp
qed

text \<open>
  C10. \<open>update\<close> leaves the heading angle and the constants \<open>gravity\<close>, \<open>thrust\<close> and
  \<open>fuelConsumptionRate\<close> as they were; and when the thrust flag is off or no fuel is
  left, the fuel and \<open>vx\<close> are unchanged and \<open>vy\<close> is the float sum of \<open>vy\<close> and
  \<open>gravity\<close>: the one addition of \<open>gravity\<close> is all that happens to it.
\<close>

theorem update_frame:
  "angle (update fl dt thrusting l) = angle l \<and>
   gravity (update fl dt thrusting l) = gravity l \<and>
   thrust (update fl dt thrusting l) = thrust l \<and>
   fuelConsumptionRate (update fl dt thrusting l) = fuelConsumptionRate l \<and>
   (\<not> thrusting \<or> fuel l \<le> 0 \<longrightarrow>
      fuel (update fl dt thrusting l) = fuel l \<and>
      vx (update fl dt thrusting l) = vx l \<and>
      vy (update fl dt thrusting l) = fl_add fl (vy l) (gravity l))"
  by (simp add: update_def apply_thrust_def Let_def)

theorem update_frame_witness:
  "angle (update double_ops 1 False (Lander double_ops 0.125)) = 0 \<and>
   fuel (update double_ops 1 False (Lander double_ops 0.125)) = 100 \<and>
   vx (update double_ops 1 False (Lander double_ops 0.125)) = 0 \<and>
   vy (update double_ops 1 False (Lander double_ops 0.125)) = 0.125"
  using update_frame [of double_ops 1 False "Lander double_ops 0.125"]
  by (simp add: Lander_def fl_defs double_ops_simps round_double_exact)

subsection \<open>Terrain height field\<close>

lemma py_range_grid: "py_range 0 (WIDTH + 1) 20 = map (\<lambda>i. 20 * int i) [0..<61]"
  by (simp add: py_range_def WIDTH_def)

lemma grid_profile_length: "grid_profile points \<Longrightarrow> length points = 61"
  unfolding grid_profile_def py_range_grid
  by (metis length_map length_upt diff_zero)

lemma grid_profile_nth: "grid_profile points \<Longrightarrow> i < 61 \<Longrightarrow> fst (points ! i) = 20 * int i"
proof -
  assume g: "grid_profile points" and i: "i < 61"
  have len: "length points = 61" using g by (rule grid_profile_length)
  have "fst (points ! i) = map fst points ! i" using i len by simp
  also have "\<dots> = map (\<lambda>i. 20 * int i) [0..<61] ! i"
    using g unfolding grid_profile_def py_range_grid by simp
  also have "\<dots> = 20 * int i" using i by simp
  finally show ?thesis .
qed

lemma py_index_nat: "i < length xs \<Longrightarrow> py_index xs (int i) = Inr (xs ! i)"
  by (simp add: py_index_def)

lemma py_index_last: "xs \<noteq> [] \<Longrightarrow> py_index xs (- 1) = Inr (last xs)"
  by (cases xs rule: rev_cases) (auto simp: py_index_def nat_add_distrib)

text \<open>Inside the screen the height is the interpolation, in float arithmetic, between the
  sample at index \<open>k = \<lfloor>x / 20\<rfloor>\<close> and the next one.\<close>

lemma height_inside:
  assumes g: "grid_profile points" and lo: "0 < xq" and hi: "xq < 1200"
    and k: "k = nat \<lfloor>xq / 20\<rfloor>"
  shows "k < 60 \<and> 20 * real k \<le> xq \<and> xq < 20 * real k + 20 \<and>
         get_terrain_height fl xq points 20 =
           Inr (fl_add fl
                  (fl_mul fl (snd (points ! k))
                     (fl_sub fl 1 (fl_div fl (fl_sub fl xq (20 * real k)) 20)))
                  (fl_mul fl (snd (points ! Suc k))
                     (fl_div fl (fl_sub fl xq (20 * real k)) 20)))"
proof -
  have f0: "0 \<le> \<lfloor>xq / 20\<rfloor>" using lo by simp
  have "xq / 20 < 60" using hi by simp
  then have f60: "\<lfloor>xq / 20\<rfloor> < 60" by (simp add: floor_less_iff)
  have kk: "\<lfloor>xq / 20\<rfloor> = int k" using f0 by (simp add: k)
  have k60: "k < 60" using f60 kk by simp
  have rk: "real k = of_int \<lfloor>xq / 20\<rfloor>" using kk by simp
  have b1: "20 * real k \<le> xq"
    using of_int_floor_le[of "xq / 20"] by (simp add: rk)
  have "xq / 20 < of_int \<lfloor>xq / 20\<rfloor> + 1"
    by linarith
  then have b2: "xq < 20 * real k + 20"
    unfolding rk by linarith
  have len: "length points = 61" using g by (rule grid_profile_length)
  have p1: "py_index points (int k) = Inr (points ! k)"
    using k60 len by (simp add: py_index_nat)
  have p2: "py_index points (int k + 1) = Inr (points ! Suc k)"
    using py_index_nat[of "Suc k" points] k60 len by (simp add: add.commute)
  have x1: "fst (points ! k) = 20 * int k" using g k60 by (simp add: grid_profile_nth)
  have x2: "fst (points ! Suc k) = 20 * int k + 20" using g k60 by (simp add: grid_profile_nth)
  have "get_terrain_height fl xq points 20 =
           Inr (fl_add fl
                  (fl_mul fl (snd (points ! k))
                     (fl_sub fl 1 (fl_div fl (fl_sub fl xq (20 * real k)) 20)))
                  (fl_mul fl (snd (points ! Suc k))
                     (fl_div fl (fl_sub fl xq (20 * real k)) 20)))"
    using lo hi k60
    by (simp add: get_terrain_height_def Let_def WIDTH_def kk len p1 p2 x1 x2)
  then show ?thesis using k60 b1 b2 by simp
qed

lemma height_left:
  "grid_profile points \<Longrightarrow> xq \<le> 0 \<Longrightarrow> get_terrain_height fl xq points 20 = Inr (snd (points ! 0))"
  using py_index_nat[of 0 points]
  by (simp add: get_terrain_height_def grid_profile_length)

lemma height_right:
  "grid_profile points \<Longrightarrow> xq \<ge> 1200 \<Longrightarrow> get_terrain_height fl xq points 20 = Inr (snd (last points))"
proof -
  assume g: "grid_profile points" and x: "xq \<ge> 1200"
  have "points \<noteq> []" using grid_profile_length[OF g] by auto
  then have "py_index points (- 1) = Inr (last points)" by (rule py_index_last)
  then show ?thesis using x by (simp add: get_terrain_height_def WIDTH_def)
qed

lemma height_defined:
  assumes g: "grid_profile points"
  shows "\<exists>h. get_terrain_height fl xq points 20 = Inr h"
proof -
  consider "xq \<le> 0" | "xq \<ge> 1200" | "0 < xq" "xq < 1200" by linarith
  then show ?thesis
    using height_left[OF g] height_right[OF g] height_inside[OF g _ _ refl] by cases blast+
qed

lemma height_at_sample:
  assumes g: "grid_profile points" and i: "i < length points"
    and r0: "rnd fl 0 = 0" and r1: "rnd fl 1 = 1"
    and rh: "rnd fl (snd (points ! i)) = snd (points ! i)"
  shows "get_terrain_height fl (of_int (fst (points ! i))) points 20 = Inr (snd (points ! i))"
proof -
  have len: "length points = 61" using g by (rule grid_profile_length)
  then have i61: "i < 61" using i by simp
  have xi: "fst (points ! i) = 20 * int i" using g i61 by (rule grid_profile_nth)
  consider "i = 0" | "i = 60" | "0 < i" "i < 60" using i61 by linarith
  then show ?thesis
  proof cases
    case 1
    then show ?thesis using height_left[OF g, of 0] xi by simp
  next
    case 2
    have "points \<noteq> []" using len by auto
    then have "last points = points ! 60" using len by (simp add: last_conv_nth)
    then show ?thesis using height_right[OF g, of 1200] xi 2 by simp
  next
    case 3
    have k: "i = nat \<lfloor>(20 * real i) / 20\<rfloor>" by simp
    show ?thesis
      using height_inside[OF g _ _ k, of fl] 3
      by (simp add: xi fl_defs r0 r1 rh)
  qed
qed

text \<open>
  C2. On a profile with samples at \<open>x = 0, 20, \<dots>, 1200\<close>, \<open>get_terrain_height\<close> with
  step 20 returns the first sample's height for \<open>x \<le> 0\<close>, the last sample's height for
  \<open>x \<ge> 1200\<close>, and for \<open>0 < x < 1200\<close> the value \<open>p1.y * (1 - t) + p2.y * t\<close>, in float
  arithmetic, with \<open>p1\<close>, \<open>p2\<close> the samples at index \<open>\<lfloor>x / 20\<rfloor>\<close> and the next one (they
  bracket \<open>x\<close>) and \<open>t = (x - p1.x) / (p2.x - p1.x)\<close>; at the \<open>x\<close> of a sample it returns
  that sample's height exactly, 0, 1 and that height being floats (rounding leaves them
  as they are); and it always returns a height, so it raises no division error (nor any
  other).
\<close>

theorem height_interpolation:
  assumes "grid_profile points"
  shows "(xq \<le> 0 \<longrightarrow> get_terrain_height fl xq points 20 = Inr (snd (points ! 0))) \<and>
         (xq \<ge> 1200 \<longrightarrow> get_terrain_height fl xq points 20 = Inr (snd (last points))) \<and>
         (0 < xq \<and> xq < 1200 \<longrightarrow>
            (let p1 = points ! nat \<lfloor>xq / 20\<rfloor>;
                 p2 = points ! (nat \<lfloor>xq / 20\<rfloor> + 1);
                 t = fl_div fl (fl_sub fl xq (of_int (fst p1))) (of_int (fst p2 - fst p1))
             in of_int (fst p1) \<le> xq \<and> xq < of_int (fst p2) \<and>
                get_terrain_height fl xq points 20 =
                  Inr (fl_add fl (fl_mul fl (snd p1) (fl_sub fl 1 t)) (fl_mul fl (snd p2) t)))) \<and>
         (i < length points \<and> rnd fl 0 = 0 \<and> rnd fl 1 = 1 \<and>
          rnd fl (snd (points ! i)) = snd (points ! i) \<longrightarrow>
            get_terrain_height fl (of_int (fst (points ! i))) points 20 = Inr (snd (points ! i))) \<and>
         (\<exists>h. get_terrain_height fl xq points 20 = Inr h)"
proof -
  note g = assms
  have inside: "0 < xq \<and> xq < 1200 \<longrightarrow>
            (let p1 = points ! nat \<lfloor>xq / 20\<rfloor>;
                 p2 = points ! (nat \<lfloor>xq / 20\<rfloor> + 1);
                 t = fl_div fl (fl_sub fl xq (of_int (fst p1))) (of_int (fst p2 - fst p1))
             in of_int (fst p1) \<le> xq \<and> xq < of_int (fst p2) \<and>
                get_terrain_height fl xq points 20 =
                  Inr (fl_add fl (fl_mul fl (snd p1) (fl_sub fl 1 t)) (fl_mul fl (snd p2) t)))"
  proof
    assume b: "0 < xq \<and> xq < 1200"
    define k where "k = nat \<lfloor>xq / 20\<rfloor>"
    have h: "k < 60 \<and> 20 * real k \<le> xq \<and> xq < 20 * real k + 20 \<and>
         get_terrain_height fl xq points 20 =
           Inr (fl_add fl
                  (fl_mul fl (snd (points ! k))
                     (fl_sub fl 1 (fl_div fl (fl_sub fl xq (20 * real k)) 20)))
                  (fl_mul fl (snd (points ! Suc k))
                     (fl_div fl (fl_sub fl xq (20 * real k)) 20)))"
      using height_inside[OF g _ _ k_def, of fl] b by simp
    then have k60: "k < 60" by simp
    have x1: "fst (points ! k) = 20 * int k" using g k60 by (simp add: grid_profile_nth)
    have x2: "fst (points ! Suc k) = 20 * int k + 20" using g k60 by (simp add: grid_profile_nth)
    show "let p1 = points ! nat \<lfloor>xq / 20\<rfloor>;
                 p2 = points ! (nat \<lfloor>xq / 20\<rfloor> + 1);
                 t = fl_div fl (fl_sub fl xq (of_int (fst p1))) (of_int (fst p2 - fst p1))
             in of_int (fst p1) \<le> xq \<and> xq < of_int (fst p2) \<and>
                get_terrain_height fl xq points 20 =
                  Inr (fl_add fl (fl_mul fl (snd p1) (fl_sub fl 1 t)) (fl_mul fl (snd p2) t))"
      using h unfolding Let_def k_def[symmetric]
      by (simp add: x1 x2)
  qed
  show ?thesis
    using height_left[OF g] height_right[OF g] inside height_at_sample[OF g] height_defined[OF g]
    by blast
qed

theorem height_interpolation_witness:
  "grid_profile ramp_profile \<and>
   get_terrain_height double_ops (- 5) ramp_profile 20 = Inr 500 \<and>
   get_terrain_height double_ops 1300 ramp_profile 20 = Inr 680 \<and>
   get_terrain_height double_ops 30 ramp_profile 20 = Inr 504.5 \<and>
   get_terrain_height double_ops 40 ramp_profile 20 = Inr 506"
proof -
  have g: "grid_profile ramp_profile"
    by (simp add: grid_profile_def ramp_profile_def py_range_grid comp_def)
  have l: "last ramp_profile = (1200, 680)"
    by (simp add: ramp_profile_def last_map)
  have len: "length ramp_profile = 61"
    by (simp add: ramp_profile_def)
  have n: "ramp_profile ! 0 = (0, 500)" "ramp_profile ! Suc 0 = (20, 503)"
    "ramp_profile ! Suc (Suc 0) = (40, 506)" "ramp_profile ! 2 = (40, 506)"
    by (simp_all add: ramp_profile_def)
  have f: "\<lfloor>30 / 20 :: real\<rfloor> = 1" by simp
  show ?thesis
    using g height_interpolation[OF g, of "- 5" double_ops 2]
      height_interpolation[OF g, of 1300 double_ops 2]
      height_interpolation[OF g, of 30 double_ops 2]
    by (simp add: l n f len Let_def fl_defs double_ops_simps round_double_exact)
qed

lemma get_terrain_height_short_profile:
  "get_terrain_height fl 1190 (butlast ramp_profile) 20 = Inl ZeroDivisionError"
  by (simp add: get_terrain_height_def ramp_profile_def py_index_def WIDTH_def Let_def butlast_conv_take)

subsection \<open>Smoothing\<close>

lemma smooth_pass_length:
  "2 \<le> length points \<Longrightarrow> smooth_pass fl points = Inr ps \<Longrightarrow> length ps = length points"
  by (auto simp: smooth_pass_def split: if_splits)

lemma smooth_pass_first:
  "smooth_pass fl points = Inr ps \<Longrightarrow> ps ! 0 = points ! 0"
  by (auto simp: smooth_pass_def split: if_splits)

lemma smooth_pass_last:
  "2 \<le> length points \<Longrightarrow> smooth_pass fl points = Inr ps \<Longrightarrow>
     ps ! (length points - 1) = points ! (length points - 1)"
  by (auto simp: smooth_pass_def nth_append last_conv_nth split: if_splits)

lemma smooth_pass_interior:
  "smooth_pass fl points = Inr ps \<Longrightarrow> 0 < j \<Longrightarrow> j < length points - 1 \<Longrightarrow>
     ps ! j = (fst (points ! j),
               fl_div fl (fl_add fl (fl_add fl (snd (points ! (j - 1))) (snd (points ! j)))
                                   (snd (points ! (j + 1)))) 3)"
  by (auto simp: smooth_pass_def nth_append nth_Cons' split: if_splits)



text \<open>Exact arithmetic computes the averages without error.\<close>

lemma smooth_error_exact: "smooth_error exact_ops points i = 0"
  by (simp add: smooth_error_def exact_ops_simps)




text \<open>The doubles nearest to five thirds.\<close>

lemma round_thirds:
  "round_double (1505 / 3) = 8825413332282027 / 17592186044416"
  "round_double (1514 / 3) = 8878189890415275 / 17592186044416"
  "round_double (1529 / 3) = 8966150820637355 / 17592186044416"
  "round_double (1550 / 3) = 4544648061474133 / 8796093022208"
  "round_double (1577 / 3) = 4623812898674005 / 8796093022208"
  using round_double_binade[of 8 "1505 / 3"] round_double_binade[of 8 "1514 / 3"]
    round_double_binade[of 8 "1529 / 3"] round_double_binade[of 9 "1550 / 3"]
    round_double_binade[of 9 "1577 / 3"]
  by (simp_all add: round_half_even_def powr_minus_divide)



text \<open>
  In binary64 the maximum can even grow: on the profile \<open>500, 501, 504, 509, 516, 525, 536\<close>
  every second difference is 2, and after the pass, whose averages are rounded, the
  largest one is \<open>2 + 1 / 17592186044416\<close>.
\<close>

lemma smoothing_rounding_grows:
  "smooth_pass double_ops squares_profile =
     Inr [(0, 500), (20, 8825413332282027 / 17592186044416),
          (40, 8878189890415275 / 17592186044416), (60, 8966150820637355 / 17592186044416),
          (80, 4544648061474133 / 8796093022208), (100, 4623812898674005 / 8796093022208),
          (120, 536)] \<and>
   max_second_diff squares_profile = 2 \<and>
   max_second_diff [(0, 500), (20, 8825413332282027 / 17592186044416),
          (40, 8878189890415275 / 17592186044416), (60, 8966150820637355 / 17592186044416),
          (80, 4544648061474133 / 8796093022208), (100, 4623812898674005 / 8796093022208),
          (120, 536)] = 35184372088833 / 17592186044416"
  by (simp add: smooth_pass_def max_second_diff_def second_diff_def squares_profile_def
      upt_conv_Cons fl_defs double_ops_simps round_double_exact round_thirds)

subsection \<open>Terrain generator\<close>

lemma randint_in_range:
  "a \<le> b \<Longrightarrow> \<exists>v. randint a b rs k = Inr (v, Suc k) \<and> a \<le> v \<and> v \<le> b"
proof -
  assume ab: "a \<le> b"
  have "rs k mod nat (b - a + 1) < nat (b - a + 1)"
    using ab by (intro mod_less_divisor) simp
  then have "int (rs k mod nat (b - a + 1)) \<le> b - a"
    using ab by linarith
  then show ?thesis
    using ab by (simp add: randint_def)
qed

lemma rough_points_grid:
  "\<exists>ps. rough_points rs k xs = Inr (ps, k + length xs) \<and> map fst ps = xs"
proof (induction xs arbitrary: k)
  case Nil
  show ?case by simp
next
  case (Cons xc xs)
  obtain yc where y: "randint (HEIGHT - 300) (HEIGHT - 100) rs k = Inr (yc, Suc k)"
    using randint_in_range[of "HEIGHT - 300" "HEIGHT - 100" rs k] by auto
  obtain ps where ps: "rough_points rs (Suc k) xs = Inr (ps, Suc k + length xs)" "map fst ps = xs"
    using Cons.IH[of "Suc k"] by blast
  show ?case
    using y ps by simp
qed

lemma smooth_pass_xs:
  assumes len: "2 \<le> length points" and sm: "smooth_pass fl points = Inr ps"
  shows "map fst ps = map fst points"
proof (rule nth_equalityI)
  have l: "length ps = length points" using smooth_pass_length[OF len sm] .
  show "length (map fst ps) = length (map fst points)" using l by simp
  fix i assume "i < length (map fst ps)"
  then have i: "i < length points" using l by simp
  consider "i = 0" | "i = length points - 1" | "0 < i" "i < length points - 1"
    using i by linarith
  then have "fst (ps ! i) = fst (points ! i)"
  proof cases
    case 1
    then show ?thesis using smooth_pass_first[OF sm] by simp
  next
    case 2
    then show ?thesis using smooth_pass_last[OF len sm] by simp
  next
    case 3
    then show ?thesis using smooth_pass_interior[OF sm] by simp
  qed
  then show "map fst ps ! i = map fst points ! i" using i l by simp
qed

lemma smooth_pass_defined: "points \<noteq> [] \<Longrightarrow> \<exists>ps. smooth_pass fl points = Inr ps"
  by (simp add: smooth_pass_def)

lemma smooth_terrain_xs:
  "2 \<le> length points \<Longrightarrow> \<exists>ps. smooth_terrain fl points n = Inr ps \<and> map fst ps = map fst points"
proof (induction n arbitrary: points)
  case 0
  show ?case by simp
next
  case (Suc n)
  have "points \<noteq> []" using Suc.prems by auto
  then obtain p1 where p1: "smooth_pass fl points = Inr p1"
    using smooth_pass_defined by blast
  have x1: "map fst p1 = map fst points" using smooth_pass_xs[OF Suc.prems p1] .
  then have "length p1 = length points" using map_eq_imp_length_eq by blast
  then have "2 \<le> length p1" using Suc.prems by simp
  then obtain ps where "smooth_terrain fl p1 n = Inr ps" "map fst ps = map fst p1"
    using Suc.IH by blast
  then show ?case using p1 x1 by simp
qed

lemma sample_heights_grid:
  assumes g: "grid_profile points"
  shows "\<exists>hs. sample_heights fl xs points 20 = Inr hs \<and>
              map (\<lambda>xc. get_terrain_height fl (of_int xc) points 20) xs = map Inr hs"
proof (induction xs)
  case Nil
  show ?case by simp
next
  case (Cons xc xs)
  obtain h where h: "get_terrain_height fl (of_int xc) points 20 = Inr h"
    using height_defined[OF g] by blast
  obtain hs where "sample_heights fl xs points 20 = Inr hs"
    "map (\<lambda>xc. get_terrain_height fl (of_int xc) points 20) xs = map Inr hs"
    using Cons.IH by blast
  then show ?case using h by simp
qed

lemma py_range_nonempty: "a < b \<Longrightarrow> 0 < s \<Longrightarrow> py_range a b s \<noteq> []"
proof -
  assume "a < b" "0 < s"
  then have "s \<le> b - a + s - 1" by simp
  then have "s div s \<le> (b - a + s - 1) div s"
    using \<open>0 < s\<close> by (intro zdiv_mono1)
  then have "1 \<le> (b - a + s - 1) div s"
    using \<open>0 < s\<close> by simp
  then show ?thesis by (simp add: py_range_def)
qed

lemma flatten_xs: "map fst (flatten a b h points) = map fst points"
  by (induction points) (auto simp: flatten_def)

lemma flatten_grid: "grid_profile points \<Longrightarrow> grid_profile (flatten a b h points)"
  by (simp add: grid_profile_def flatten_xs)

lemma overlap_check_iff:
  "overlap_check a b zones \<longleftrightarrow> (\<exists>z\<in>set zones. fst z \<le> b \<and> a \<le> snd z)"
  by (induction zones) auto

lemma attempt_rejected:
  assumes "randint 80 150 rs (rng_pos s) = Inr (pad_width, k1)"
    and "randint 50 (WIDTH - pad_width - 50) rs k1 = Inr (pad_x, k2)"
    and "overlap_check pad_x (pad_x + pad_width) (used_zones s)"
  shows "attempt fl rs s = Inr (s\<lparr>attempts := attempts s + 1, rng_pos := k2\<rparr>)"
  using assms by (simp add: attempt_def)

lemma attempt_accepted:
  assumes "randint 80 150 rs (rng_pos s) = Inr (pad_width, k1)"
    and "randint 50 (WIDTH - pad_width - 50) rs k1 = Inr (pad_x, k2)"
    and "\<not> overlap_check pad_x (pad_x + pad_width) (used_zones s)"
    and "sample_heights fl (py_range pad_x (pad_x + pad_width + 1) 20) (terrain_points s) 20 = Inr samples"
    and "samples \<noteq> []"
  shows "attempt fl rs s =
     Inr (s\<lparr>attempts := attempts s + 1, rng_pos := k2,
            terrain_points := flatten pad_x (pad_x + pad_width)
               (fl_div fl (py_sum fl samples) (real (length samples))) (terrain_points s),
            landing_zones := landing_zones s @
               [LandingZone pad_x (py_int (fl_sub fl (fl_div fl (py_sum fl samples) (real (length samples))) 10))
                  pad_width 10 2 ''Pad''],
            used_zones := used_zones s @ [(pad_x, pad_x + pad_width)]\<rparr>)"
  using assms by (simp add: attempt_def Let_def)

lemma spans_disjoint_snoc:
  "spans_disjoint (zs @ [z]) \<longleftrightarrow>
     spans_disjoint zs \<and> (\<forall>u\<in>set zs. snd u < fst z \<or> fst u > snd z)"
  by (induction zs) (auto simp: list_all_iff)

lemma draws_in_range:
  "\<exists>pad_width pad_x. randint 80 150 rs k = Inr (pad_width, Suc k) \<and>
      randint 50 (WIDTH - pad_width - 50) rs (Suc k) = Inr (pad_x, Suc (Suc k)) \<and>
      80 \<le> pad_width \<and> pad_width \<le> 150 \<and> 50 \<le> pad_x \<and> pad_x + pad_width \<le> WIDTH - 50"
proof -
  obtain w where w: "randint 80 150 rs k = Inr (w, Suc k)" "80 \<le> w" "w \<le> 150"
    using randint_in_range[of 80 150 rs k] by auto
  have "50 \<le> WIDTH - w - 50" using w by (simp add: WIDTH_def)
  then obtain px where "randint 50 (WIDTH - w - 50) rs (Suc k) = Inr (px, Suc (Suc k))"
    "50 \<le> px" "px \<le> WIDTH - w - 50"
    using randint_in_range[of 50 "WIDTH - w - 50" rs "Suc k"] by auto
  then show ?thesis using w by (intro exI[of _ w] exI[of _ px]) simp
qed

lemma samples_defined:
  assumes g: "grid_profile points" and w: "0 \<le> pad_width"
  shows "\<exists>samples. sample_heights fl (py_range pad_x (pad_x + pad_width + 1) 20) points 20 = Inr samples \<and>
           samples \<noteq> [] \<and>
           map (\<lambda>xc. get_terrain_height fl (of_int xc) points 20)
               (py_range pad_x (pad_x + pad_width + 1) 20) = map Inr samples"
proof -
  obtain hs where hs: "sample_heights fl (py_range pad_x (pad_x + pad_width + 1) 20) points 20 = Inr hs"
    "map (\<lambda>xc. get_terrain_height fl (of_int xc) points 20)
         (py_range pad_x (pad_x + pad_width + 1) 20) = map Inr hs"
    using sample_heights_grid[OF g] by blast
  have "py_range pad_x (pad_x + pad_width + 1) 20 \<noteq> []"
    using w by (intro py_range_nonempty) auto
  then have "hs \<noteq> []" using hs(2) by auto
  then show ?thesis using hs by blast
qed

lemma attempt_keeps_inv:
  assumes inv: "gen_inv s" and n3: "length (landing_zones s) < 3" and a20: "attempts s < 20"
  shows "\<exists>s'. attempt fl rs s = Inr s' \<and> gen_inv s'"
proof -
  obtain w px where d: "randint 80 150 rs (rng_pos s) = Inr (w, Suc (rng_pos s))"
      "randint 50 (WIDTH - w - 50) rs (Suc (rng_pos s)) = Inr (px, Suc (Suc (rng_pos s)))"
      and r: "80 \<le> w" "w \<le> 150" "50 \<le> px" "px + w \<le> WIDTH - 50"
    using draws_in_range[of rs "rng_pos s"] by blast
  show ?thesis
  proof (cases "overlap_check px (px + w) (used_zones s)")
    case True
    have "attempt fl rs s = Inr (s\<lparr>attempts := attempts s + 1, rng_pos := Suc (Suc (rng_pos s))\<rparr>)"
      using attempt_rejected[OF d True] .
    moreover have "gen_inv (s\<lparr>attempts := attempts s + 1, rng_pos := Suc (Suc (rng_pos s))\<rparr>)"
      using inv a20 by (auto simp: gen_inv_def)
    ultimately show ?thesis by blast
  next
    case False
    have g: "grid_profile (terrain_points s)" using inv by (simp add: gen_inv_def)
    obtain samples where sm:
      "sample_heights fl (py_range px (px + w + 1) 20) (terrain_points s) 20 = Inr samples"
      "samples \<noteq> []"
      using samples_defined[OF g, where pad_width = w and pad_x = px and fl = fl] r by auto
    define s' where "s' = s\<lparr>attempts := attempts s + 1, rng_pos := Suc (Suc (rng_pos s)),
            terrain_points := flatten px (px + w)
               (fl_div fl (py_sum fl samples) (real (length samples))) (terrain_points s),
            landing_zones := landing_zones s @
               [LandingZone px (py_int (fl_sub fl (fl_div fl (py_sum fl samples) (real (length samples))) 10))
                  w 10 2 ''Pad''],
            used_zones := used_zones s @ [(px, px + w)]\<rparr>"
    have st: "attempt fl rs s = Inr s'"
      unfolding s'_def using attempt_accepted[OF d False sm] .
    have nov: "\<forall>u\<in>set (used_zones s). snd u < px \<or> fst u > px + w"
      using False by (auto simp: overlap_check_iff)
    have "gen_inv s'"
      using inv n3 a20 r nov
      by (auto simp: gen_inv_def s'_def flatten_grid spans_disjoint_snoc zone_span_def
          LandingZone_def rect_left_def rect_right_def span_ok_def)
    then show ?thesis using st by blast
  qed
qed

lemma place_pads_inv:
  "gen_inv s \<Longrightarrow> \<exists>s'. place_pads fl rs s = Inr s' \<and> gen_inv s'"
proof (induction fl rs s rule: place_pads.induct)
  case (1 fl rs s)
  show ?case
  proof (cases "length (landing_zones s) < 3 \<and> attempts s < 20")
    case True
    then obtain s1 where s1: "attempt fl rs s = Inr s1" "gen_inv s1"
      using attempt_keeps_inv[OF "1.prems"] by blast
    then obtain s' where "place_pads fl rs s1 = Inr s'" "gen_inv s'"
      using "1.IH"[OF True s1(1) s1(2)] by blast
    then show ?thesis
      using True s1 by (subst place_pads.simps) simp
  next
    case False
    then show ?thesis
      using "1.prems" by (subst place_pads.simps) auto
  qed
qed

lemma generate_state_inv: "\<exists>s. generate_state fl rs = Inr s \<and> gen_inv s"
proof -
  obtain raw where raw: "rough_points rs 0 (py_range 0 (WIDTH + 1) 20) = Inr (raw, 0 + length (py_range 0 (WIDTH + 1) 20))"
    "map fst raw = py_range 0 (WIDTH + 1) 20"
    using rough_points_grid[of rs 0 "py_range 0 (WIDTH + 1) 20"] by blast
  have "length raw = 61"
    using raw(2) grid_profile_length[of raw] by (simp add: grid_profile_def)
  then have "2 \<le> length raw" by simp
  then obtain sm where sm: "smooth_terrain fl raw 3 = Inr sm" "map fst sm = map fst raw"
    using smooth_terrain_xs[where points = raw and n = 3 and fl = fl] by blast
  define s0 where "s0 = \<lparr>terrain_points = sm, landing_zones = [], used_zones = [],
                            attempts = 0, rng_pos = 0 + length (py_range 0 (WIDTH + 1) 20)\<rparr>"
  have "gen_inv s0"
    using sm(2) raw(2) by (simp add: gen_inv_def s0_def grid_profile_def)
  then obtain s where "place_pads fl rs s0 = Inr s" "gen_inv s"
    using place_pads_inv by blast
  then show ?thesis
    using raw(1) sm(1) by (auto simp: generate_state_def s0_def)
qed

text \<open>
  C8. Whatever the random source draws, terrain generation returns (it raises nothing, and
  the placement loop is a total function): the final loop state has made at most 20
  attempts and holds at most 3 pads, and the terrain and the pads of that state are what
  \<open>generate_terrain_and_landing_zones\<close> returns. Running out of attempts with fewer
  than 3 pads is such a normal return.
\<close>

theorem generation_total:
  "\<exists>s. generate_state fl rs = Inr s \<and>
        generate_terrain_and_landing_zones fl rs = Inr (terrain_points s, landing_zones s) \<and>
        attempts s \<le> 20 \<and> length (landing_zones s) \<le> 3"
  using generate_state_inv[of fl rs]
  by (auto simp: generate_terrain_and_landing_zones_def gen_inv_def)

lemma ramp_nth: "i < 61 \<Longrightarrow> ramp_profile ! i = (20 * int i, 500 + 3 * real i)"
  by (simp add: ramp_profile_def)

lemma rough_points_heights:
  "rough_points rs k xs = Inr (ps, k') \<Longrightarrow> i < length xs \<Longrightarrow>
     ps ! i = (xs ! i, of_int (500 + int (rs (k + i) mod 201)))"
proof (induction xs arbitrary: k k' ps i)
  case Nil
  then show ?case by simp
next
  case (Cons xc xs)
  obtain yc where y: "randint (HEIGHT - 300) (HEIGHT - 100) rs k = Inr (yc, Suc k)"
    using randint_in_range[of "HEIGHT - 300" "HEIGHT - 100" rs k] by auto
  then have yv: "yc = 500 + int (rs k mod 201)"
    by (simp add: randint_def HEIGHT_def)
  obtain qs k2 where q: "rough_points rs (Suc k) xs = Inr (qs, k2)"
    using rough_points_grid[of rs "Suc k" xs] by blast
  have ps: "ps = (xc, of_int yc) # qs"
    using Cons.prems(1) y q by simp
  show ?case
  proof (cases i)
    case 0
    then show ?thesis using ps yv by simp
  next
    case (Suc j)
    then have "j < length xs" using Cons.prems(2) by simp
    then have "qs ! j = (xs ! j, of_int (500 + int (rs (Suc k + j) mod 201)))"
      using Cons.IH[OF q] by blast
    then show ?thesis using ps Suc by simp
  qed
qed

lemma rough_points_ramp:
  assumes "\<forall>k<61. rs k mod 201 = 3 * k"
  shows "rough_points rs 0 (py_range 0 (WIDTH + 1) 20) = Inr (ramp_profile, 61)"
proof -
  obtain ps where ps: "rough_points rs 0 (py_range 0 (WIDTH + 1) 20) = Inr (ps, 0 + length (py_range 0 (WIDTH + 1) 20))"
    "map fst ps = py_range 0 (WIDTH + 1) 20"
    using rough_points_grid[of rs 0 "py_range 0 (WIDTH + 1) 20"] by blast
  have len: "length ps = 61"
    using ps(2) grid_profile_length[of ps] by (simp add: grid_profile_def)
  have "ps = ramp_profile"
  proof (rule nth_equalityI)
    show "length ps = length ramp_profile" using len by (simp add: ramp_profile_def)
    fix i assume "i < length ps"
    then have i: "i < 61" using len by simp
    have "ps ! i = (py_range 0 (WIDTH + 1) 20 ! i, of_int (500 + int (rs (0 + i) mod 201)))"
      using rough_points_heights[OF ps(1), of i] i by (simp add: py_range_grid)
    then show "ps ! i = ramp_profile ! i"
      using i assms by (simp add: py_range_grid ramp_nth)
  qed
  then show ?thesis using ps(1) by (simp add: py_range_grid)
qed

lemma smooth_pass_ramp: "smooth_pass double_ops ramp_profile = Inr ramp_profile"
proof -
  have ne: "ramp_profile \<noteq> []" by (simp add: ramp_profile_def)
  then obtain ps where ps: "smooth_pass double_ops ramp_profile = Inr ps"
    using smooth_pass_defined by blast
  have len: "length ramp_profile = 61" by (simp add: ramp_profile_def)
  have l2: "2 \<le> length ramp_profile" using len by simp
  have lps: "length ps = 61" using smooth_pass_length[OF l2 ps] len by simp
  have "ps = ramp_profile"
  proof (rule nth_equalityI)
    show "length ps = length ramp_profile" using lps len by simp
    fix i assume "i < length ps"
    then have i: "i < 61" using lps by simp
    consider "i = 0" | "i = 60" | "0 < i" "i < 60" using i by linarith
    then show "ps ! i = ramp_profile ! i"
    proof cases
      case 1
      then show ?thesis using smooth_pass_first[OF ps] by simp
    next
      case 2
      then show ?thesis using smooth_pass_last[OF l2 ps] len by simp
    next
      case 3
      have v: "snd (ramp_profile ! (i - 1)) = of_int (497 + 3 * int i)"
        "snd (ramp_profile ! i) = of_int (500 + 3 * int i)"
        "snd (ramp_profile ! (i + 1)) = of_int (503 + 3 * int i)"
        using 3 by (simp_all add: ramp_nth of_nat_diff)
      have s2: "round_double (of_int (497 + 3 * int i) + of_int (500 + 3 * int i))
                  = of_int (997 + 6 * int i)"
        using 3 round_double_of_int[of "997 + 6 * int i"] by simp
      have s3: "round_double (of_int (997 + 6 * int i) + of_int (503 + 3 * int i))
                  = of_int (1500 + 9 * int i)"
        using 3 round_double_of_int[of "1500 + 9 * int i"] by simp
      have "real_of_int (1500 + 9 * int i) / 3 = of_int (500 + 3 * int i)" by simp
      moreover have "round_double (of_int (500 + 3 * int i)) = of_int (500 + 3 * int i)"
        using 3 by (intro round_double_of_int) simp
      ultimately have q: "round_double (of_int (1500 + 9 * int i) / 3) = of_int (500 + 3 * int i)"
        by (simp only:)
      have "ps ! i = (fst (ramp_profile ! i),
               fl_div double_ops (fl_add double_ops (fl_add double_ops
                  (snd (ramp_profile ! (i - 1))) (snd (ramp_profile ! i)))
                  (snd (ramp_profile ! (i + 1)))) 3)"
        using smooth_pass_interior[OF ps, of i] 3 len by simp
      then have "ps ! i = (fst (ramp_profile ! i), of_int (500 + 3 * int i))"
        unfolding v fl_defs double_ops_simps s2 s3 q .
      then show ?thesis
        using 3 by (simp add: ramp_nth)
    qed
  qed
  then show ?thesis using ps by simp
qed

lemma smooth_terrain_ramp: "smooth_terrain double_ops ramp_profile 3 = Inr ramp_profile"
  by (simp add: numeral_3_eq_3 smooth_pass_ramp)

lemma generate_state_ramp:
  "\<forall>k<61. rs k mod 201 = 3 * k \<Longrightarrow> generate_state double_ops rs = place_pads double_ops rs ramp_start"
  by (simp add: generate_state_def rough_points_ramp smooth_terrain_ramp ramp_start_def)

lemma ramp_first_attempt:
  assumes "rs 61 mod 71 = 0" and "rs 62 mod 1021 = 0"
  shows "attempt double_ops rs ramp_start = Inr ramp_one_pad"
proof -
  have w: "randint 80 150 rs (rng_pos ramp_start) = Inr (80, 62)"
    using assms by (simp add: randint_def ramp_start_def)
  have px: "randint 50 (WIDTH - 80 - 50) rs 62 = Inr (50, 63)"
    using assms by (simp add: randint_def WIDTH_def)
  have ov: "\<not> overlap_check 50 (50 + 80) (used_zones ramp_start)"
    by (simp add: ramp_start_def)
  have sm: "sample_heights double_ops (py_range 50 (50 + 80 + 1) 20) (terrain_points ramp_start) 20
              = Inr [507.5, 510.5, 513.5, 516.5, 519.5]"
    by (simp add: py_range_def upt_conv_Cons ramp_start_def get_terrain_height_def
        ramp_profile_def py_index_def WIDTH_def Let_def fl_defs double_ops_simps round_double_exact)
  show ?thesis
    using attempt_accepted[OF w px ov sm]
    by (simp add: ramp_start_def ramp_one_pad_def py_int_def fl_defs double_ops_simps round_double_exact)
qed

lemma place_pads_exhausts:
  "\<forall>k\<ge>rng_pos s. rs k = 0 \<Longrightarrow> length (landing_zones s) = 1 \<Longrightarrow>
     used_zones s = [(50, 130)] \<Longrightarrow> attempts s \<le> 20 \<Longrightarrow>
     place_pads fl rs s = Inr (s\<lparr>attempts := 20, rng_pos := rng_pos s + 2 * (20 - attempts s)\<rparr>)"
proof (induction fl rs s rule: place_pads.induct)
  case (1 fl rs s)
  show ?case
  proof (cases "attempts s < 20")
    case True
    define s' where "s' = s\<lparr>attempts := attempts s + 1, rng_pos := Suc (Suc (rng_pos s))\<rparr>"
    have r0: "rs (rng_pos s) = 0" "rs (Suc (rng_pos s)) = 0"
      using "1.prems"(1) by auto
    have w: "randint 80 150 rs (rng_pos s) = Inr (80, Suc (rng_pos s))"
      using r0 by (simp add: randint_def)
    have px: "randint 50 (WIDTH - 80 - 50) rs (Suc (rng_pos s)) = Inr (50, Suc (Suc (rng_pos s)))"
      using r0 by (simp add: randint_def WIDTH_def)
    have ov: "overlap_check 50 (50 + 80) (used_zones s)"
      using "1.prems"(3) by simp
    have st: "attempt fl rs s = Inr s'"
      unfolding s'_def using attempt_rejected[OF w px ov] .
    have c: "length (landing_zones s) < 3 \<and> attempts s < 20"
      using True "1.prems"(2) by simp
    have "place_pads fl rs s' = Inr (s'\<lparr>attempts := 20, rng_pos := rng_pos s' + 2 * (20 - attempts s')\<rparr>)"
      using "1.IH"[OF c st] "1.prems" True by (simp add: s'_def)
    moreover have "place_pads fl rs s = place_pads fl rs s'"
      using c st by (subst place_pads.simps) simp
    ultimately show ?thesis
      using True by (simp add: s'_def)
  next
    case False
    then have "attempts s = 20" using "1.prems"(4) by simp
    then show ?thesis
      by (subst place_pads.simps) simp
  qed
qed

lemma ramp_draws_run:
  "generate_state double_ops ramp_draws = Inr (ramp_one_pad\<lparr>attempts := 20, rng_pos := 101\<rparr>)"
proof -
  have a: "\<forall>k<61. ramp_draws k mod 201 = 3 * k" by (simp add: ramp_draws_def)
  have b: "attempt double_ops ramp_draws ramp_start = Inr ramp_one_pad"
    by (rule ramp_first_attempt) (simp_all add: ramp_draws_def)
  have c: "place_pads double_ops ramp_draws ramp_start = place_pads double_ops ramp_draws ramp_one_pad"
    using b by (subst place_pads.simps) (simp add: ramp_start_def)
  have d: "place_pads double_ops ramp_draws ramp_one_pad =
      Inr (ramp_one_pad\<lparr>attempts := 20, rng_pos := rng_pos ramp_one_pad + 2 * (20 - attempts ramp_one_pad)\<rparr>)"
    by (rule place_pads_exhausts) (simp_all add: ramp_draws_def ramp_one_pad_def)
  show ?thesis
    using generate_state_ramp[OF a] c d by (simp add: ramp_one_pad_def)
qed

lemma ramp_second_attempt:
  assumes "rs 63 mod 71 = 0" and "rs 64 mod 1021 = 150"
  shows "attempt double_ops rs ramp_one_pad = Inr ramp_two_pads"
proof -
  have w: "randint 80 150 rs (rng_pos ramp_one_pad) = Inr (80, 64)"
    using assms by (simp add: randint_def ramp_one_pad_def)
  have px: "randint 50 (WIDTH - 80 - 50) rs 64 = Inr (200, 65)"
    using assms by (simp add: randint_def WIDTH_def)
  have ov: "\<not> overlap_check 200 (200 + 80) (used_zones ramp_one_pad)"
    by (simp add: ramp_one_pad_def)
  have sm: "sample_heights double_ops (py_range 200 (200 + 80 + 1) 20) (terrain_points ramp_one_pad) 20
              = Inr [530, 533, 536, 539, 542]"
    by (simp add: py_range_def upt_conv_Cons ramp_one_pad_def get_terrain_height_def flatten_def
        ramp_profile_def py_index_def WIDTH_def Let_def fl_defs double_ops_simps round_double_exact)
  show ?thesis
    using attempt_accepted[OF w px ov sm]
    by (simp add: ramp_one_pad_def ramp_two_pads_def py_int_def fl_defs double_ops_simps round_double_exact)
qed

lemma ramp_third_attempt:
  assumes "rs 65 mod 71 = 0" and "rs 66 mod 1021 = 350"
  shows "attempt double_ops rs ramp_two_pads = Inr ramp_three_pads"
proof -
  have w: "randint 80 150 rs (rng_pos ramp_two_pads) = Inr (80, 66)"
    using assms by (simp add: randint_def ramp_two_pads_def)
  have px: "randint 50 (WIDTH - 80 - 50) rs 66 = Inr (400, 67)"
    using assms by (simp add: randint_def WIDTH_def)
  have ov: "\<not> overlap_check 400 (400 + 80) (used_zones ramp_two_pads)"
    by (simp add: ramp_two_pads_def)
  have sm: "sample_heights double_ops (py_range 400 (400 + 80 + 1) 20) (terrain_points ramp_two_pads) 20
              = Inr [560, 563, 566, 569, 572]"
    by (simp add: py_range_def upt_conv_Cons ramp_two_pads_def get_terrain_height_def flatten_def
        ramp_profile_def py_index_def WIDTH_def Let_def fl_defs double_ops_simps round_double_exact)
  show ?thesis
    using attempt_accepted[OF w px ov sm]
    by (simp add: ramp_two_pads_def ramp_three_pads_def py_int_def fl_defs double_ops_simps round_double_exact)
qed

lemma three_pad_draws_run: "generate_state double_ops three_pad_draws = Inr ramp_three_pads"
proof -
  have a: "\<forall>k<61. three_pad_draws k mod 201 = 3 * k" by (simp add: three_pad_draws_def)
  have s1: "attempt double_ops three_pad_draws ramp_start = Inr ramp_one_pad"
    by (rule ramp_first_attempt) (simp_all add: three_pad_draws_def)
  have s2: "attempt double_ops three_pad_draws ramp_one_pad = Inr ramp_two_pads"
    by (rule ramp_second_attempt) (simp_all add: three_pad_draws_def)
  have s3: "attempt double_ops three_pad_draws ramp_two_pads = Inr ramp_three_pads"
    by (rule ramp_third_attempt) (simp_all add: three_pad_draws_def)
  have "place_pads double_ops three_pad_draws ramp_start = place_pads double_ops three_pad_draws ramp_one_pad"
    using s1 by (subst place_pads.simps) (simp add: ramp_start_def)
  also have "\<dots> = place_pads double_ops three_pad_draws ramp_two_pads"
    using s2 by (subst place_pads.simps) (simp add: ramp_one_pad_def)
  also have "\<dots> = place_pads double_ops three_pad_draws ramp_three_pads"
    using s3 by (subst place_pads.simps) (simp add: ramp_two_pads_def)
  also have "\<dots> = Inr ramp_three_pads"
    by (subst place_pads.simps) (simp add: ramp_three_pads_def)
  finally show ?thesis
    using generate_state_ramp[OF a] by simp
qed

lemma touch_draws_run:
  "generate_state double_ops touch_draws = Inr (ramp_one_pad\<lparr>attempts := 20, rng_pos := 101\<rparr>)"
proof -
  have a: "\<forall>k<61. touch_draws k mod 201 = 3 * k" by (simp add: touch_draws_def)
  have s1: "attempt double_ops touch_draws ramp_start = Inr ramp_one_pad"
    by (rule ramp_first_attempt) (simp_all add: touch_draws_def)
  have w: "randint 80 150 touch_draws (rng_pos ramp_one_pad) = Inr (80, 64)"
    by (simp add: randint_def ramp_one_pad_def touch_draws_def)
  have px: "randint 50 (WIDTH - 80 - 50) touch_draws 64 = Inr (130, 65)"
    by (simp add: randint_def WIDTH_def touch_draws_def)
  have ov: "overlap_check 130 (130 + 80) (used_zones ramp_one_pad)"
    by (simp add: ramp_one_pad_def)
  have s2: "attempt double_ops touch_draws ramp_one_pad = Inr (ramp_one_pad\<lparr>attempts := 2, rng_pos := 65\<rparr>)"
    using attempt_rejected[OF w px ov] by (simp add: ramp_one_pad_def)
  have "place_pads double_ops touch_draws ramp_start = place_pads double_ops touch_draws ramp_one_pad"
    using s1 by (subst place_pads.simps) (simp add: ramp_start_def)
  also have "\<dots> = place_pads double_ops touch_draws (ramp_one_pad\<lparr>attempts := 2, rng_pos := 65\<rparr>)"
    using s2 by (subst place_pads.simps) (simp add: ramp_one_pad_def)
  also have "\<dots> = Inr (ramp_one_pad\<lparr>attempts := 20, rng_pos := 101\<rparr>)"
    using place_pads_exhausts[of "ramp_one_pad\<lparr>attempts := 2, rng_pos := 65\<rparr>" touch_draws double_ops]
    by (simp add: ramp_one_pad_def touch_draws_def)
  finally show ?thesis
    using generate_state_ramp[OF a] by simp
qed

lemma flatten_nth:
  "i < length points \<Longrightarrow>
     flatten a b h points ! i =
       (if a \<le> fst (points ! i) \<and> fst (points ! i) \<le> b then (fst (points ! i), h)
        else points ! i)"
  by (simp add: flatten_def case_prod_beta)

lemma flatten_length: "length (flatten a b h points) = length points"
  by (simp add: flatten_def)

lemma randint_lower: "randint a b rs k = Inr (v, k') \<Longrightarrow> a \<le> v"
  by (auto simp: randint_def split: if_splits)

text \<open>
  C4, as the code has it. In a loop state whose terrain is on the grid, an attempt whose
  drawn candidate \<open>(pad_width, pad_x)\<close> overlaps no used range succeeds; with
  \<open>samples\<close> the heights \<open>get_terrain_height\<close> gives on the terrain before the attempt
  at \<open>pad_x, pad_x + 20, \<dots>\<close> up to \<open>pad_x + pad_width\<close>, and \<open>pad_y\<close> their mean as
  the code computes it, the float quotient of \<^verbatim>\<open>sum(samples)\<close> and their number, every
  terrain sample with \<open>pad_x \<le> x \<le> pad_x + pad_width\<close> has height \<open>pad_y\<close> afterwards and
  the others are unchanged, and the pad appended has the rectangle
  \<open>(pad_x, int (pad_y - 10), pad_width, 10)\<close>, whose \<open>y\<close> is the float difference
  truncated to an integer, and \<open>maxLandingSpeed\<close> 2.
\<close>

theorem accepted_pad:
  assumes g: "grid_profile (terrain_points s)"
    and w: "randint 80 150 rs (rng_pos s) = Inr (pad_width, k1)"
    and px: "randint 50 (WIDTH - pad_width - 50) rs k1 = Inr (pad_x, k2)"
    and acc: "\<not> overlap_check pad_x (pad_x + pad_width) (used_zones s)"
  shows "\<exists>samples s'.
           attempt fl rs s = Inr s' \<and> samples \<noteq> [] \<and>
           map (\<lambda>xc. get_terrain_height fl (of_int xc) (terrain_points s) 20)
               (py_range pad_x (pad_x + pad_width + 1) 20) = map Inr samples \<and>
           length (terrain_points s') = length (terrain_points s) \<and>
           (\<forall>i<length (terrain_points s).
              terrain_points s' ! i =
                (if pad_x \<le> fst (terrain_points s ! i) \<and> fst (terrain_points s ! i) \<le> pad_x + pad_width
                 then (fst (terrain_points s ! i), fl_div fl (py_sum fl samples) (real (length samples)))
                 else terrain_points s ! i)) \<and>
           landing_zones s' = landing_zones s @
             [\<lparr>zone_rect = \<lparr>rect_x = pad_x,
                             rect_y = py_int (fl_sub fl (fl_div fl (py_sum fl samples) (real (length samples))) 10),
                             rect_width = pad_width, rect_height = 10\<rparr>,
               maxLandingSpeed = 2, label = ''Pad''\<rparr>]"
proof -
  have "0 \<le> pad_width" using randint_lower[OF w] by simp
  then obtain samples where sm:
    "sample_heights fl (py_range pad_x (pad_x + pad_width + 1) 20) (terrain_points s) 20 = Inr samples"
    "samples \<noteq> []"
    "map (\<lambda>xc. get_terrain_height fl (of_int xc) (terrain_points s) 20)
         (py_range pad_x (pad_x + pad_width + 1) 20) = map Inr samples"
    using samples_defined[OF g, where pad_width = pad_width and pad_x = pad_x and fl = fl] by blast
  show ?thesis
    using attempt_accepted[OF w px acc sm(1,2)] sm(2,3)
    by (intro exI[of _ samples]) (simp add: flatten_nth flatten_length LandingZone_def)
qed

theorem accepted_pad_witness:
  "grid_profile (terrain_points ramp_start) \<and>
   randint 80 150 ramp_draws (rng_pos ramp_start) = Inr (80, 62) \<and>
   randint 50 (WIDTH - 80 - 50) ramp_draws 62 = Inr (50, 63) \<and>
   \<not> overlap_check 50 (50 + 80) (used_zones ramp_start) \<and>
   attempt double_ops ramp_draws ramp_start = Inr ramp_one_pad \<and>
   map (\<lambda>xc. get_terrain_height double_ops (of_int xc) ramp_profile 20) (py_range 50 131 20)
     = map Inr [507.5, 510.5, 513.5, 516.5, 519.5] \<and>
   fl_div double_ops (py_sum double_ops [507.5, 510.5, 513.5, 516.5, 519.5]) 5 = 513.5 \<and>
   terrain_points ramp_one_pad ! 3 = (60, 513.5) \<and>
   terrain_points ramp_one_pad ! 7 = (140, 521) \<and>
   landing_zones ramp_one_pad =
     [\<lparr>zone_rect = \<lparr>rect_x = 50, rect_y = 503, rect_width = 80, rect_height = 10\<rparr>,
       maxLandingSpeed = 2, label = ''Pad''\<rparr>]"
proof -
  have g: "grid_profile (terrain_points ramp_start)"
    by (simp add: ramp_start_def grid_profile_def ramp_profile_def py_range_grid comp_def)
  have w: "randint 80 150 ramp_draws (rng_pos ramp_start) = Inr (80, 62)"
    by (simp add: randint_def ramp_start_def ramp_draws_def)
  have px: "randint 50 (WIDTH - 80 - 50) ramp_draws 62 = Inr (50, 63)"
    by (simp add: randint_def WIDTH_def ramp_draws_def)
  have acc: "\<not> overlap_check 50 (50 + 80) (used_zones ramp_start)"
    by (simp add: ramp_start_def)
  have st: "attempt double_ops ramp_draws ramp_start = Inr ramp_one_pad"
    by (rule ramp_first_attempt) (simp_all add: ramp_draws_def)
  have hs: "map (\<lambda>xc. get_terrain_height double_ops (of_int xc) ramp_profile 20) (py_range 50 131 20)
     = map Inr [507.5, 510.5, 513.5, 516.5, 519.5]"
    by (simp add: py_range_def upt_conv_Cons get_terrain_height_def
        ramp_profile_def py_index_def WIDTH_def Let_def fl_defs double_ops_simps round_double_exact)
  have mean: "fl_div double_ops (py_sum double_ops [507.5, 510.5, 513.5, 516.5, 519.5]) 5 = 513.5"
    by (simp add: fl_defs double_ops_simps round_double_exact)
  have tp: "terrain_points ramp_one_pad ! 3 = (60, 513.5)"
    "terrain_points ramp_one_pad ! 7 = (140, 521)"
    by (simp_all add: ramp_one_pad_def flatten_def ramp_profile_def)
  have lz: "landing_zones ramp_one_pad =
     [\<lparr>zone_rect = \<lparr>rect_x = 50, rect_y = 503, rect_width = 80, rect_height = 10\<rparr>,
       maxLandingSpeed = 2, label = ''Pad''\<rparr>]"
    by (simp add: ramp_one_pad_def LandingZone_def)
  show ?thesis
    using accepted_pad[OF g w px acc, where fl = double_ops] g w px acc st hs mean tp lz
    by simp
qed

text \<open>
  C4 as stated (rectangle at \<open>(pad_x, pad_y - thickness)\<close>) fails: on the ramp the run
  of \<open>ramp_draws\<close> places one pad over \<open>[50, 130]\<close>; the sampled heights have mean
  \<open>513.5\<close> (in binary64 as in exact arithmetic), so \<open>pad_y - thickness\<close> is \<open>503.5\<close>,
  and the rectangle's \<open>y\<close> is \<open>503\<close>.
\<close>

theorem pad_rect_counterexample:
  "generate_terrain_and_landing_zones double_ops ramp_draws =
     Inr (flatten 50 130 513.5 ramp_profile, [LandingZone 50 503 80 10 2 ''Pad'']) \<and>
   sample_heights double_ops (py_range 50 (130 + 1) 20) ramp_profile 20
     = Inr [507.5, 510.5, 513.5, 516.5, 519.5] \<and>
   fl_div double_ops (py_sum double_ops [507.5, 510.5, 513.5, 516.5, 519.5])
     (real (length [507.5, 510.5, 513.5, 516.5, 519.5 :: real])) = 513.5 \<and>
   sum_list [507.5, 510.5, 513.5, 516.5, 519.5] / real (length [507.5, 510.5, 513.5, 516.5, 519.5 :: real])
     = 513.5 \<and>
   fl_sub double_ops 513.5 10 = 503.5 \<and>
   real_of_int (rect_y (zone_rect (LandingZone 50 503 80 10 2 ''Pad''))) \<noteq> 513.5 - 10"
proof -
  have "generate_terrain_and_landing_zones double_ops ramp_draws =
     Inr (flatten 50 130 513.5 ramp_profile, [LandingZone 50 503 80 10 2 ''Pad''])"
    by (simp add: generate_terrain_and_landing_zones_def ramp_draws_run ramp_one_pad_def)
  moreover have "sample_heights double_ops (py_range 50 (130 + 1) 20) ramp_profile 20
      = Inr [507.5, 510.5, 513.5, 516.5, 519.5]"
    by (simp add: py_range_def upt_conv_Cons get_terrain_height_def
        ramp_profile_def py_index_def WIDTH_def Let_def fl_defs double_ops_simps round_double_exact)
  ultimately show ?thesis
    by (simp add: LandingZone_def fl_defs double_ops_simps round_double_exact)
qed

text \<open>
  The mean is the float mean. For the samples \<open>1534 / 3\<close>, \<open>512\<close> and \<open>1538 / 3\<close> (the
  doubles nearest to them) the float sum is 1536 and the float mean is 512, so the
  rectangle's \<open>y\<close> is 502; the exact mean of the three doubles is below 512, and truncating
  it less 10 would give 501.
\<close>

lemma pad_mean_rounding:
  "round_double (1534 / 3) = 8995471130711381 / 17592186044416 \<and>
   round_double (1538 / 3) = 4509463689385301 / 8796093022208 \<and>
   fl_div double_ops
     (py_sum double_ops [8995471130711381 / 17592186044416, 512, 4509463689385301 / 8796093022208])
     (real (length [8995471130711381 / 17592186044416, 512, 4509463689385301 / 8796093022208 :: real]))
     = 512 \<and>
   py_int (fl_sub double_ops 512 10) = 502 \<and>
   sum_list [8995471130711381 / 17592186044416, 512, 4509463689385301 / 8796093022208]
     / real (length [8995471130711381 / 17592186044416, 512, 4509463689385301 / 8796093022208 :: real])
     = 27021597764222975 / 52776558133248 \<and>
   py_int (27021597764222975 / 52776558133248 - 10) = 501"
proof -
  let ?a = "8995471130711381 / 17592186044416 :: real"
  let ?c = "4509463689385301 / 8796093022208 :: real"
  have a: "round_double (1534 / 3) = ?a"
    using round_double_binade[of 8 "1534 / 3"] by (simp add: round_half_even_def powr_minus_divide)
  have c: "round_double (1538 / 3) = ?c"
    using round_double_binade[of 9 "1538 / 3"] by (simp add: round_half_even_def powr_minus_divide)
  have r1: "round_double ?a = ?a"
    using round_double_binade[of 8 ?a] by (simp add: round_half_even_def powr_minus_divide)
  have r2: "round_double (?a + 512) = 4500667596363093 / 4398046511104"
    using round_double_binade[of 9 "?a + 512"] by (simp add: round_half_even_def powr_minus_divide)
  have r3: "round_double (4500667596363093 / 4398046511104 + ?c) = 1536"
    using round_double_binade[of 10 "4500667596363093 / 4398046511104 + ?c"]
    by (simp add: round_half_even_def powr_minus_divide)
  have s: "py_sum double_ops [?a, 512, ?c] = 1536"
    by (simp only: double_ops_simps foldl.simps add_0 r1 r2 r3)
  have m: "fl_div double_ops (py_sum double_ops [?a, 512, ?c]) (real (length [?a, 512, ?c])) = 512"
    unfolding s by (simp add: fl_defs double_ops_simps round_double_exact)
  have y: "py_int (fl_sub double_ops 512 10) = 502"
    by (simp add: fl_defs double_ops_simps round_double_exact py_int_def)
  have e: "sum_list [?a, 512, ?c] / real (length [?a, 512, ?c]) = 27021597764222975 / 52776558133248"
    by simp
  have t: "py_int (27021597764222975 / 52776558133248 - 10) = 501"
    by (simp add: py_int_def)
  show ?thesis using a c m y e t by (intro conjI)
qed

text \<open>
  C5, as the code has it. For every candidate \<open>(pad_width, pad_x)\<close> drawn in an attempt,
  with \<open>pad_right = pad_x + pad_width\<close>: the overlap test holds exactly when some used
  range \<open>(left, right)\<close> has \<open>left \<le> pad_right\<close> and \<open>pad_x \<le> right\<close> (the test on closed
  intervals); a candidate found overlapping is rejected, that is, the attempt is used up
  and the state is otherwise unchanged; an attempt that places a pad had a candidate
  strictly apart from every used range (\<open>pad_right < left\<close> or \<open>pad_x > right\<close>); and a
  candidate that touches a used range at an endpoint (\<open>pad_right = left\<close>, or
  \<open>pad_x = right\<close>) is found overlapping and rejected.
\<close>

theorem touching_candidate_rejected:
  assumes w: "randint 80 150 rs (rng_pos s) = Inr (pad_width, k1)"
    and px: "randint 50 (WIDTH - pad_width - 50) rs k1 = Inr (pad_x, k2)"
  shows "(overlap_check pad_x (pad_x + pad_width) (used_zones s) \<longleftrightarrow>
            (\<exists>z\<in>set (used_zones s). fst z \<le> pad_x + pad_width \<and> pad_x \<le> snd z)) \<and>
         (overlap_check pad_x (pad_x + pad_width) (used_zones s) \<longrightarrow>
            attempt fl rs s = Inr (s\<lparr>attempts := attempts s + 1, rng_pos := k2\<rparr>)) \<and>
         (\<forall>s'. attempt fl rs s = Inr s' \<and> landing_zones s' \<noteq> landing_zones s \<longrightarrow>
            (\<forall>z\<in>set (used_zones s). pad_x + pad_width < fst z \<or> pad_x > snd z)) \<and>
         (\<forall>zl zr. (zl, zr) \<in> set (used_zones s) \<and> zl \<le> zr \<and>
                  (pad_x + pad_width = zl \<or> pad_x = zr) \<longrightarrow>
            overlap_check pad_x (pad_x + pad_width) (used_zones s) \<and>
            attempt fl rs s = Inr (s\<lparr>attempts := attempts s + 1, rng_pos := k2\<rparr>))"
proof -
  have rej: "attempt fl rs s = Inr (s\<lparr>attempts := attempts s + 1, rng_pos := k2\<rparr>)"
    if "overlap_check pad_x (pad_x + pad_width) (used_zones s)"
    using attempt_rejected[OF w px that] .
  have placed: "\<forall>z\<in>set (used_zones s). pad_x + pad_width < fst z \<or> pad_x > snd z"
    if "attempt fl rs s = Inr s'" "landing_zones s' \<noteq> landing_zones s" for s'
  proof -
    have "\<not> overlap_check pad_x (pad_x + pad_width) (used_zones s)"
      using rej that by auto
    then show ?thesis by (auto simp: overlap_check_iff)
  qed
  have touch: "overlap_check pad_x (pad_x + pad_width) (used_zones s)"
    if "(zl, zr) \<in> set (used_zones s)" "zl \<le> zr" "pad_x + pad_width = zl \<or> pad_x = zr" for zl zr
  proof -
    have "0 \<le> pad_width" using randint_lower[OF w] by simp
    then have "zl \<le> pad_x + pad_width \<and> pad_x \<le> zr"
      using that(2,3) by auto
    then show ?thesis
      using that(1) by (force simp: overlap_check_iff)
  qed
  show ?thesis
    using overlap_check_iff[of pad_x "pad_x + pad_width" "used_zones s"] rej placed touch
    by blast
qed

theorem touching_candidate_rejected_witness:
  "randint 80 150 touch_draws (rng_pos ramp_one_pad) = Inr (80, 64) \<and>
   randint 50 (WIDTH - 80 - 50) touch_draws 64 = Inr (130, 65) \<and>
   (50, 130) \<in> set (used_zones ramp_one_pad) \<and> (50 :: int) \<le> 130 \<and>
   overlap_check 130 (130 + 80) (used_zones ramp_one_pad) \<and>
   attempt double_ops touch_draws ramp_one_pad = Inr (ramp_one_pad\<lparr>attempts := 2, rng_pos := 65\<rparr>) \<and>
   randint 80 150 three_pad_draws (rng_pos ramp_one_pad) = Inr (80, 64) \<and>
   randint 50 (WIDTH - 80 - 50) three_pad_draws 64 = Inr (200, 65) \<and>
   attempt double_ops three_pad_draws ramp_one_pad = Inr ramp_two_pads \<and>
   landing_zones ramp_two_pads \<noteq> landing_zones ramp_one_pad \<and>
   \<not> overlap_check 200 (200 + 80) (used_zones ramp_one_pad) \<and>
   list_all (\<lambda>z. 200 + 80 < fst z \<or> 200 > snd z) (used_zones ramp_one_pad)"
proof -
  have w: "randint 80 150 touch_draws (rng_pos ramp_one_pad) = Inr (80, 64)"
    by (simp add: randint_def ramp_one_pad_def touch_draws_def)
  have px: "randint 50 (WIDTH - 80 - 50) touch_draws 64 = Inr (130, 65)"
    by (simp add: randint_def WIDTH_def touch_draws_def)
  have z: "(50, 130) \<in> set (used_zones ramp_one_pad)" "(50 :: int) \<le> 130"
    by (simp_all add: ramp_one_pad_def)
  have t: "overlap_check 130 (130 + 80) (used_zones ramp_one_pad) \<and>
        attempt double_ops touch_draws ramp_one_pad =
          Inr (ramp_one_pad\<lparr>attempts := attempts ramp_one_pad + 1, rng_pos := 65\<rparr>)"
    using touching_candidate_rejected[OF w px, where fl = double_ops] z by blast
  have w2: "randint 80 150 three_pad_draws (rng_pos ramp_one_pad) = Inr (80, 64)"
    by (simp add: randint_def ramp_one_pad_def three_pad_draws_def)
  have px2: "randint 50 (WIDTH - 80 - 50) three_pad_draws 64 = Inr (200, 65)"
    by (simp add: randint_def WIDTH_def three_pad_draws_def)
  have st: "attempt double_ops three_pad_draws ramp_one_pad = Inr ramp_two_pads"
    by (rule ramp_second_attempt) (simp_all add: three_pad_draws_def)
  have ne: "landing_zones ramp_two_pads \<noteq> landing_zones ramp_one_pad"
    by (simp add: ramp_one_pad_def ramp_two_pads_def)
  have apart: "\<forall>z\<in>set (used_zones ramp_one_pad). 200 + 80 < fst z \<or> 200 > snd z"
    using touching_candidate_rejected[OF w2 px2, where fl = double_ops] st ne by blast
  have no: "\<not> overlap_check 200 (200 + 80) (used_zones ramp_one_pad)"
    using touching_candidate_rejected[OF w2 px2, where fl = double_ops] apart by fastforce
  show ?thesis
    using w px z t w2 px2 st ne no apart by (simp add: ramp_one_pad_def list_all_iff)
qed

text \<open>
  C5 as stated (touching edges are allowed) fails: in the run of \<open>touch_draws\<close> the
  first pad takes \<open>[50, 130]\<close>, the second candidate is \<open>[130, 210]\<close>, and the attempt
  leaves the pads as they were; the run ends with that one pad.
\<close>

theorem touching_allowed_counterexample:
  "attempt double_ops touch_draws ramp_start = Inr ramp_one_pad \<and>
   used_zones ramp_one_pad = [(50, 130)] \<and>
   randint 80 150 touch_draws (rng_pos ramp_one_pad) = Inr (80, 64) \<and>
   randint 50 (WIDTH - 80 - 50) touch_draws 64 = Inr (130, 65) \<and>
   attempt double_ops touch_draws ramp_one_pad = Inr (ramp_one_pad\<lparr>attempts := 2, rng_pos := 65\<rparr>) \<and>
   generate_terrain_and_landing_zones double_ops touch_draws =
     Inr (terrain_points ramp_one_pad, [LandingZone 50 503 80 10 2 ''Pad''])"
proof -
  have s1: "attempt double_ops touch_draws ramp_start = Inr ramp_one_pad"
    by (rule ramp_first_attempt) (simp_all add: touch_draws_def)
  have w: "randint 80 150 touch_draws (rng_pos ramp_one_pad) = Inr (80, 64)"
    by (simp add: randint_def ramp_one_pad_def touch_draws_def)
  have px: "randint 50 (WIDTH - 80 - 50) touch_draws 64 = Inr (130, 65)"
    by (simp add: randint_def WIDTH_def touch_draws_def)
  have ov: "overlap_check 130 (130 + 80) (used_zones ramp_one_pad)"
    by (simp add: ramp_one_pad_def)
  have s2: "attempt double_ops touch_draws ramp_one_pad = Inr (ramp_one_pad\<lparr>attempts := 2, rng_pos := 65\<rparr>)"
    using attempt_rejected[OF w px ov] by (simp add: ramp_one_pad_def)
  have r: "generate_terrain_and_landing_zones double_ops touch_draws =
     Inr (terrain_points ramp_one_pad, [LandingZone 50 503 80 10 2 ''Pad''])"
    by (simp add: generate_terrain_and_landing_zones_def touch_draws_run ramp_one_pad_def)
  show ?thesis
    using s1 w px s2 r by (simp add: ramp_one_pad_def)
qed

lemma spans_disjoint_nth:
  "spans_disjoint zs \<Longrightarrow> i < length zs \<Longrightarrow> j < length zs \<Longrightarrow> i \<noteq> j \<Longrightarrow>
     snd (zs ! i) < fst (zs ! j) \<or> fst (zs ! i) > snd (zs ! j)"
proof (induction zs arbitrary: i j)
  case Nil
  then show ?case by simp
next
  case (Cons z zs)
  show ?case
  proof (cases i)
    case 0
    then obtain j' where j: "j = Suc j'" using Cons.prems(4) by (cases j) auto
    then have "zs ! j' \<in> set zs" using Cons.prems(3) by simp
    then show ?thesis
      using Cons.prems(1) 0 j by (auto simp: list_all_iff)
  next
    case (Suc i')
    show ?thesis
    proof (cases j)
      case 0
      have "zs ! i' \<in> set zs" using Cons.prems(2) Suc by simp
      then show ?thesis
        using Cons.prems(1) 0 Suc by (auto simp: list_all_iff)
    next
      case (Suc j')
      then show ?thesis
        using Cons.IH[of i' j'] Cons.prems \<open>i = Suc i'\<close> by simp
    qed
  qed
qed

text \<open>
  C6. Whatever the random source draws, any two distinct pads returned have strictly
  disjoint x-ranges (\<open>right\<^sub>i < left\<^sub>j\<close> or \<open>left\<^sub>i > right\<^sub>j\<close>), and every pad has a
  width in \<open>[80, 150]\<close>, \<open>left \<ge> 50\<close> and \<open>right \<le> WIDTH - 50\<close>.
\<close>

theorem pads_disjoint_in_bounds:
  assumes "generate_terrain_and_landing_zones fl rs = Inr (points, zones)"
  shows "(\<forall>i<length zones. \<forall>j<length zones. i \<noteq> j \<longrightarrow>
            rect_right (zone_rect (zones ! i)) < rect_left (zone_rect (zones ! j)) \<or>
            rect_left (zone_rect (zones ! i)) > rect_right (zone_rect (zones ! j))) \<and>
         (\<forall>z\<in>set zones.
            80 \<le> rect_width (zone_rect z) \<and> rect_width (zone_rect z) \<le> 150 \<and>
            50 \<le> rect_left (zone_rect z) \<and> rect_right (zone_rect z) \<le> WIDTH - 50)"
proof -
  obtain s where s: "generate_state fl rs = Inr s" "gen_inv s"
    using generate_state_inv by blast
  have zs: "zones = landing_zones s"
    using assms s(1) by (simp add: generate_terrain_and_landing_zones_def)
  have u: "used_zones s = map zone_span zones" and ok: "list_all span_ok (map zone_span zones)"
    and dj: "spans_disjoint (map zone_span zones)"
    using s(2) zs by (auto simp: gen_inv_def)
  have pair: "rect_right (zone_rect (zones ! i)) < rect_left (zone_rect (zones ! j)) \<or>
            rect_left (zone_rect (zones ! i)) > rect_right (zone_rect (zones ! j))"
    if "i < length zones" "j < length zones" "i \<noteq> j" for i j
    using spans_disjoint_nth[OF dj, of i j] that by (simp add: zone_span_def)
  have each: "80 \<le> rect_width (zone_rect z) \<and> rect_width (zone_rect z) \<le> 150 \<and>
            50 \<le> rect_left (zone_rect z) \<and> rect_right (zone_rect z) \<le> WIDTH - 50"
    if "z \<in> set zones" for z
    using ok that by (auto simp: list_all_iff span_ok_def zone_span_def rect_left_def rect_right_def)
  show ?thesis using pair each by blast
qed

theorem pads_disjoint_in_bounds_witness:
  "generate_terrain_and_landing_zones double_ops three_pad_draws =
     Inr (terrain_points ramp_three_pads,
          [LandingZone 50 503 80 10 2 ''Pad'', LandingZone 200 526 80 10 2 ''Pad'',
           LandingZone 400 556 80 10 2 ''Pad'']) \<and>
   rect_right (zone_rect (LandingZone 50 503 80 10 2 ''Pad''))
     < rect_left (zone_rect (LandingZone 200 526 80 10 2 ''Pad'')) \<and>
   rect_right (zone_rect (LandingZone 200 526 80 10 2 ''Pad''))
     < rect_left (zone_rect (LandingZone 400 556 80 10 2 ''Pad'')) \<and>
   rect_left (zone_rect (LandingZone 400 556 80 10 2 ''Pad''))
     > rect_right (zone_rect (LandingZone 50 503 80 10 2 ''Pad'')) \<and>
   rect_right (zone_rect (LandingZone 400 556 80 10 2 ''Pad'')) \<le> WIDTH - 50"
proof -
  have run: "generate_terrain_and_landing_zones double_ops three_pad_draws =
     Inr (terrain_points ramp_three_pads,
          [LandingZone 50 503 80 10 2 ''Pad'', LandingZone 200 526 80 10 2 ''Pad'',
           LandingZone 400 556 80 10 2 ''Pad''])"
    by (simp add: generate_terrain_and_landing_zones_def three_pad_draws_run ramp_three_pads_def)
  show ?thesis
    using run pads_disjoint_in_bounds[OF run]
    by (simp add: LandingZone_def rect_left_def rect_right_def WIDTH_def)
qed

text \<open>
  The first attempt meets no used range, so it always places a pad: the pads returned are
  never none.
\<close>

lemma attempt_zones_mono:
  assumes "attempt fl rs s = Inr s'"
  shows "length (landing_zones s) \<le> length (landing_zones s')"
proof -
  obtain w px where d: "randint 80 150 rs (rng_pos s) = Inr (w, Suc (rng_pos s))"
      "randint 50 (WIDTH - w - 50) rs (Suc (rng_pos s)) = Inr (px, Suc (Suc (rng_pos s)))"
    using draws_in_range[of rs "rng_pos s"] by blast
  show ?thesis
  proof (cases "overlap_check px (px + w) (used_zones s)")
    case True
    then show ?thesis using attempt_rejected[OF d True] assms by auto
  next
    case False
    show ?thesis
    proof (cases "sample_heights fl (py_range px (px + w + 1) 20) (terrain_points s) 20")
      case (Inl e)
      then show ?thesis using assms d False by (simp add: attempt_def)
    next
      case (Inr samples)
      show ?thesis
      proof (cases "samples = []")
        case True
        then show ?thesis using assms d False Inr by (auto simp: attempt_def)
      next
        case ne: False
        show ?thesis using attempt_accepted[OF d False Inr ne] assms by auto
      qed
    qed
  qed
qed

lemma place_pads_zones_mono:
  "place_pads fl rs s = Inr s' \<Longrightarrow> length (landing_zones s) \<le> length (landing_zones s')"
proof (induction fl rs s rule: place_pads.induct)
  case (1 fl rs s)
  show ?case
  proof (cases "length (landing_zones s) < 3 \<and> attempts s < 20")
    case True
    have eq: "place_pads fl rs s = (case attempt fl rs s of Inl e \<Rightarrow> Inl e | Inr s1 \<Rightarrow> place_pads fl rs s1)"
      using True by (subst place_pads.simps) simp
    show ?thesis
    proof (cases "attempt fl rs s")
      case (Inl e)
      then show ?thesis using eq "1.prems" by simp
    next
      case (Inr s1)
      then have "place_pads fl rs s1 = Inr s'" using eq "1.prems" by simp
      then show ?thesis
        using attempt_zones_mono[OF Inr] "1.IH"[OF True Inr] by simp
    qed
  next
    case False
    have "place_pads fl rs s = Inr s"
      using False by (subst place_pads.simps) auto
    then show ?thesis using "1.prems" by simp
  qed
qed

lemma first_attempt_places:
  assumes g: "grid_profile (terrain_points s)" and u: "used_zones s = []"
  shows "\<exists>s'. attempt fl rs s = Inr s' \<and> length (landing_zones s') = Suc (length (landing_zones s))"
proof -
  obtain w px where d: "randint 80 150 rs (rng_pos s) = Inr (w, Suc (rng_pos s))"
      "randint 50 (WIDTH - w - 50) rs (Suc (rng_pos s)) = Inr (px, Suc (Suc (rng_pos s)))"
      and r: "80 \<le> w"
    using draws_in_range[of rs "rng_pos s"] by blast
  have ov: "\<not> overlap_check px (px + w) (used_zones s)" using u by simp
  obtain samples where sm:
      "sample_heights fl (py_range px (px + w + 1) 20) (terrain_points s) 20 = Inr samples"
      "samples \<noteq> []"
    using samples_defined[OF g, where pad_width = w and pad_x = px and fl = fl] r by auto
  show ?thesis
    using attempt_accepted[OF d ov sm] by simp
qed

lemma generation_places_a_pad:
  "\<exists>s. generate_state fl rs = Inr s \<and> 1 \<le> length (landing_zones s)"
proof -
  obtain raw where raw: "rough_points rs 0 (py_range 0 (WIDTH + 1) 20) = Inr (raw, 0 + length (py_range 0 (WIDTH + 1) 20))"
    "map fst raw = py_range 0 (WIDTH + 1) 20"
    using rough_points_grid[of rs 0 "py_range 0 (WIDTH + 1) 20"] by blast
  have "length raw = 61"
    using raw(2) grid_profile_length[of raw] by (simp add: grid_profile_def)
  then have "2 \<le> length raw" by simp
  then obtain sm where sm: "smooth_terrain fl raw 3 = Inr sm" "map fst sm = map fst raw"
    using smooth_terrain_xs[where points = raw and n = 3 and fl = fl] by blast
  define s0 where "s0 = \<lparr>terrain_points = sm, landing_zones = [], used_zones = [],
                            attempts = 0, rng_pos = 0 + length (py_range 0 (WIDTH + 1) 20)\<rparr>"
  have gs: "generate_state fl rs = place_pads fl rs s0"
    using raw(1) sm(1) by (simp add: generate_state_def s0_def)
  have inv0: "gen_inv s0"
    using sm(2) raw(2) by (simp add: gen_inv_def s0_def grid_profile_def)
  then have g0: "grid_profile (terrain_points s0)" by (simp add: gen_inv_def)
  obtain s1 where s1: "attempt fl rs s0 = Inr s1" "length (landing_zones s1) = Suc (length (landing_zones s0))"
    using first_attempt_places[OF g0, where rs = rs and fl = fl] by (auto simp: s0_def)
  have step: "place_pads fl rs s0 = place_pads fl rs s1"
    using s1(1) by (subst place_pads.simps) (simp add: s0_def)
  obtain s where s: "place_pads fl rs s0 = Inr s"
    using place_pads_inv[OF inv0] by blast
  have "length (landing_zones s1) \<le> length (landing_zones s)"
    using place_pads_zones_mono[of fl rs s1 s] s step by simp
  then show ?thesis
    using gs s s1(2) by (auto simp: s0_def)
qed

subsection \<open>Landing evaluation\<close>

lemma update_fuel_nonneg: "0 \<le> fuel l \<Longrightarrow> 0 \<le> fuel (update fl dt thrusting l)"
  by (simp add: update_def apply_thrust_def Let_def)

lemma collision_fuel:
  "collision fl points zones g = Inr g' \<Longrightarrow> fuel (the_lander g') = fuel (the_lander g)"
  by (auto simp: collision_def Let_def split: sum.splits option.splits if_splits)

lemma play_frame_fuel:
  assumes "0 \<le> fuel (the_lander g)" and "play_frame fl points zones dt kl kr th g = Inr g'"
  shows "0 \<le> fuel (the_lander g')"
proof (cases "state g = Playing")
  case True
  define l1 where "l1 = (if kl then (the_lander g)\<lparr>angle := fl_add fl (angle (the_lander g)) (fl_mul fl 100 dt)\<rparr>
                         else the_lander g)"
  define l2 where "l2 = (if kr then l1\<lparr>angle := fl_sub fl (angle l1) (fl_mul fl 100 dt)\<rparr> else l1)"
  define l3 where "l3 = update fl dt th l2"
  define l4 where "l4 = (if lander_x l3 < 0 then l3\<lparr>lander_x := 0\<rparr> else l3)"
  define l5 where "l5 = (if lander_x l4 > of_int WIDTH then l4\<lparr>lander_x := of_int WIDTH\<rparr> else l4)"
  have "play_frame fl points zones dt kl kr th g = collision fl points zones (g\<lparr>the_lander := l5\<rparr>)"
    unfolding play_frame_def Let_def l1_def l2_def l3_def l4_def l5_def using True by simp
  then have "fuel (the_lander g') = fuel l5"
    using assms(2) collision_fuel[of fl points zones "g\<lparr>the_lander := l5\<rparr>" g'] by simp
  moreover have "fuel l5 = fuel l3" by (simp add: l5_def l4_def)
  moreover have "fuel l2 = fuel (the_lander g)" by (simp add: l2_def l1_def)
  then have "0 \<le> fuel l3" unfolding l3_def using assms(1) update_fuel_nonneg by simp
  ultimately show ?thesis by simp
next
  case False
  then show ?thesis using assms by (simp add: play_frame_def)
qed

lemma play_frames_fuel:
  "0 \<le> fuel (the_lander g) \<Longrightarrow> play_frames fl points zones ins g = Inr g' \<Longrightarrow>
     0 \<le> fuel (the_lander g')"
proof (induction ins arbitrary: g)
  case Nil
  then show ?case by simp
next
  case (Cons a ins)
  obtain dt kl kr th where a: "a = (dt, kl, kr, th)" by (cases a) auto
  obtain g1 where g1: "play_frame fl points zones dt kl kr th g = Inr g1"
    "play_frames fl points zones ins g1 = Inr g'"
    using Cons.prems(2) a by (auto split: sum.splits)
  have "0 \<le> fuel (the_lander g1)" using play_frame_fuel[OF Cons.prems(1) g1(1)] .
  then show ?case using Cons.IH g1(2) by blast
qed

lemma game_fuel_nonneg:
  "play_frames fl points zones ins (new_game fl grav) = Inr g \<Longrightarrow> 0 \<le> fuel (the_lander g)"
  by (rule play_frames_fuel[of "new_game fl grav" fl]) (simp_all add: new_game_def Lander_def)

lemma find_zone_None: "find_zone zones xq = None \<Longrightarrow> \<not> first_pad_at zones xq i"
proof (induction zones arbitrary: i)
  case Nil
  then show ?case by (simp add: first_pad_at_def)
next
  case (Cons lz lzs)
  from Cons.prems have n: "\<not> pad_contains lz xq" and r: "find_zone lzs xq = None"
    by (auto simp: pad_contains_def split: if_splits)
  show ?case
  proof (cases i)
    case 0
    then show ?thesis using n by (simp add: first_pad_at_def)
  next
    case (Suc k)
    have "\<not> first_pad_at lzs xq k" using Cons.IH[OF r] .
    then show ?thesis
      using Suc by (auto simp: first_pad_at_def)
  qed
qed

lemma find_zone_first: "first_pad_at zones xq i \<Longrightarrow> find_zone zones xq = Some (zones ! i)"
proof (induction zones arbitrary: i)
  case Nil
  then show ?case by (simp add: first_pad_at_def)
next
  case (Cons lz lzs)
  show ?case
  proof (cases i)
    case 0
    then show ?thesis using Cons.prems by (simp add: first_pad_at_def pad_contains_def)
  next
    case (Suc k)
    have n: "\<not> pad_contains lz xq"
      using Cons.prems Suc by (auto simp: first_pad_at_def)
    have "first_pad_at lzs xq k"
      using Cons.prems Suc by (auto simp: first_pad_at_def)
    then have "find_zone lzs xq = Some (lzs ! k)" by (rule Cons.IH)
    moreover have "find_zone (lz # lzs) xq = find_zone lzs xq"
      using n by (auto simp: pad_contains_def)
    ultimately show ?thesis using Suc by simp
  qed
qed

lemma find_zone_Some: "find_zone zones xq = Some lz \<Longrightarrow> \<exists>i. first_pad_at zones xq i \<and> zones ! i = lz"
proof (induction zones)
  case Nil
  then show ?case by simp
next
  case (Cons z zs)
  show ?case
  proof (cases "pad_contains z xq")
    case True
    then have "lz = z" using Cons.prems by (simp add: pad_contains_def)
    then have "first_pad_at (z # zs) xq 0 \<and> (z # zs) ! 0 = lz"
      using True by (simp add: first_pad_at_def)
    then show ?thesis by blast
  next
    case False
    then have "find_zone zs xq = Some lz" using Cons.prems by (auto simp: pad_contains_def split: if_splits)
    then obtain k where k: "first_pad_at zs xq k" "zs ! k = lz" using Cons.IH by blast
    have "first_pad_at (z # zs) xq (Suc k)"
      using k(1) False by (auto simp: first_pad_at_def less_Suc_eq_0_disj)
    then show ?thesis using k(2) by (intro exI[of _ "Suc k"]) simp
  qed
qed

lemma max_py_int: "max 0 (py_int r) = max 0 \<lfloor>r\<rfloor>"
proof (cases "0 \<le> r")
  case True
  then show ?thesis by (simp add: py_int_def)
next
  case False
  then have "\<lceil>r\<rceil> \<le> 0" "\<lfloor>r\<rfloor> \<le> 0" by (simp_all add: ceiling_le_iff floor_le_iff)
  then show ?thesis using False by (simp add: py_int_def)
qed

text \<open>
  C1. The fuel of the game's lander is never negative (\<open>game_fuel_nonneg\<close>). In a
  frame with contact (\<open>lander_y + 15 \<ge> ground_y\<close>, the terrain height at \<open>lander_x\<close>)
  the collision block returns; the state becomes \<open>Landed\<close> exactly when some pad
  contains \<open>lander_x\<close> (both edges included) and the speed \<^verbatim>\<open>math.hypot(vx, vy)\<close> is at
  most the \<open>maxLandingSpeed\<close> of the first such pad in creation order; the score then
  grows by \<open>\<lfloor>fuel\<rfloor> + max 0 \<lfloor>(maxLandingSpeed - speed) * 50\<rfloor>\<close>, the difference and the
  product being the float operations of the code; in every other case the state becomes
  \<open>Crashed\<close> and the score is unchanged. With \<open>maxLandingSpeed = 2\<close>, speed 1 and fuel
  47.6 (the craft \<open>touchdown\<close>) the score grows by 97.
\<close>

theorem landing_outcome:
  assumes fuel0: "0 \<le> fuel (the_lander g)"
    and gy: "get_terrain_height fl (lander_x (the_lander g)) points 20 = Inr ground_y"
    and contact: "fl_add fl (lander_y (the_lander g)) 15 \<ge> ground_y"
  shows "\<exists>g'. collision fl points zones g = Inr g' \<and>
     (state g' = Landed \<longleftrightarrow>
        (\<exists>i. first_pad_at zones (lander_x (the_lander g)) i \<and>
             math_hypot fl (vx (the_lander g)) (vy (the_lander g)) \<le> maxLandingSpeed (zones ! i))) \<and>
     (\<forall>i. state g' = Landed \<and> first_pad_at zones (lander_x (the_lander g)) i \<longrightarrow>
        score g' - score g =
          \<lfloor>fuel (the_lander g)\<rfloor> +
          max 0 \<lfloor>fl_mul fl (fl_sub fl (maxLandingSpeed (zones ! i))
                                  (math_hypot fl (vx (the_lander g)) (vy (the_lander g)))) 50\<rfloor>) \<and>
     (state g' \<noteq> Landed \<longrightarrow> state g' = Crashed \<and> score g' - score g = 0)"
proof (cases "find_zone zones (lander_x (the_lander g))")
  case None
  have no: "\<not> first_pad_at zones (lander_x (the_lander g)) i" for i
    using find_zone_None[OF None] .
  have "collision fl points zones g =
      Inr (g\<lparr>state := Crashed, the_lander := (the_lander g)\<lparr>vx := 0, vy := 0\<rparr>\<rparr>)"
    using gy contact None by (simp add: collision_def Let_def)
  then show ?thesis using no by simp
next
  case (Some lz)
  obtain i0 where i0: "first_pad_at zones (lander_x (the_lander g)) i0" "zones ! i0 = lz"
    using find_zone_Some[OF Some] by blast
  have uniq: "zones ! i = lz" if "first_pad_at zones (lander_x (the_lander g)) i" for i
    using find_zone_first[OF that] Some by simp
  define speed where "speed = math_hypot fl (vx (the_lander g)) (vy (the_lander g))"
  show ?thesis
  proof (cases "speed \<le> maxLandingSpeed lz")
    case True
    have "collision fl points zones g =
      Inr (g\<lparr>score := score g + (\<lfloor>fuel (the_lander g)\<rfloor> +
                 max 0 \<lfloor>fl_mul fl (fl_sub fl (maxLandingSpeed lz) speed) 50\<rfloor>),
             state := Landed, the_lander := (the_lander g)\<lparr>vx := 0, vy := 0\<rparr>\<rparr>)"
      using gy contact Some True fuel0
      by (simp add: collision_def Let_def speed_def[symmetric] max_py_int) (simp add: py_int_def)
    then show ?thesis using i0 uniq True unfolding speed_def by auto
  next
    case False
    have "collision fl points zones g =
      Inr (g\<lparr>state := Crashed, the_lander := (the_lander g)\<lparr>vx := 0, vy := 0\<rparr>\<rparr>)"
      using gy contact Some False by (simp add: collision_def Let_def speed_def[symmetric])
    then show ?thesis using uniq False unfolding speed_def by auto
  qed
qed

theorem landing_outcome_witness:
  "0 \<le> fuel (the_lander touchdown) \<and>
   get_terrain_height double_ops (lander_x (the_lander touchdown)) (terrain_points ramp_one_pad) 20
     = Inr 513.5 \<and>
   fl_add double_ops (lander_y (the_lander touchdown)) 15 \<ge> 513.5 \<and>
   first_pad_at (landing_zones ramp_one_pad) (lander_x (the_lander touchdown)) 0 \<and>
   maxLandingSpeed (landing_zones ramp_one_pad ! 0) = 2 \<and>
   math_hypot double_ops (vx (the_lander touchdown)) (vy (the_lander touchdown)) = 1 \<and>
   fuel (the_lander touchdown) = round_double 47.6 \<and>
   \<lfloor>fuel (the_lander touchdown)\<rfloor> = 47 \<and>
   (\<exists>g'. collision double_ops (terrain_points ramp_one_pad) (landing_zones ramp_one_pad) touchdown
            = Inr g' \<and>
         state g' = Landed \<and> score g' - score touchdown = 97)"
proof -
  have fl: "0 \<le> fuel (the_lander touchdown)"
    by (simp add: touchdown_def)
  have gy: "get_terrain_height double_ops (lander_x (the_lander touchdown)) (terrain_points ramp_one_pad) 20
              = Inr 513.5"
    by (simp add: touchdown_def ramp_one_pad_def get_terrain_height_def flatten_def
        ramp_profile_def py_index_def WIDTH_def Let_def fl_defs double_ops_simps round_double_exact)
  have contact: "fl_add double_ops (lander_y (the_lander touchdown)) 15 \<ge> 513.5"
    by (simp add: touchdown_def fl_defs double_ops_simps round_double_exact)
  have fp: "first_pad_at (landing_zones ramp_one_pad) (lander_x (the_lander touchdown)) 0"
    by (simp add: first_pad_at_def pad_contains_def ramp_one_pad_def touchdown_def LandingZone_def
        rect_left_def rect_right_def)
  have ms: "maxLandingSpeed (landing_zones ramp_one_pad ! 0) = 2"
    by (simp add: ramp_one_pad_def LandingZone_def)
  have sp: "math_hypot double_ops (vx (the_lander touchdown)) (vy (the_lander touchdown)) = 1"
    by (simp add: touchdown_def double_ops_simps round_double_exact)
  have fv: "fuel (the_lander touchdown) = round_double 47.6"
    using round_double_binade[of 5 "47.6"]
    by (simp add: touchdown_def round_half_even_def powr_minus_divide)
  have fl47: "\<lfloor>fuel (the_lander touchdown)\<rfloor> = 47"
    by (simp add: touchdown_def)
  have bonus: "fl_mul double_ops (fl_sub double_ops 2 1) 50 = 50"
    by (simp add: fl_defs double_ops_simps round_double_exact)
  obtain g' where g': "collision double_ops (terrain_points ramp_one_pad) (landing_zones ramp_one_pad) touchdown = Inr g'"
    "state g' = Landed \<longleftrightarrow>
        (\<exists>i. first_pad_at (landing_zones ramp_one_pad) (lander_x (the_lander touchdown)) i \<and>
             math_hypot double_ops (vx (the_lander touchdown)) (vy (the_lander touchdown))
               \<le> maxLandingSpeed (landing_zones ramp_one_pad ! i))"
    "\<forall>i. state g' = Landed \<and> first_pad_at (landing_zones ramp_one_pad) (lander_x (the_lander touchdown)) i \<longrightarrow>
        score g' - score touchdown =
          \<lfloor>fuel (the_lander touchdown)\<rfloor> +
          max 0 \<lfloor>fl_mul double_ops (fl_sub double_ops (maxLandingSpeed (landing_zones ramp_one_pad ! i))
                   (math_hypot double_ops (vx (the_lander touchdown)) (vy (the_lander touchdown)))) 50\<rfloor>"
    using landing_outcome[OF fl gy contact, of "landing_zones ramp_one_pad"] by blast
  have landed: "state g' = Landed"
    using g'(2) fp ms sp by auto
  have "score g' - score touchdown = 97"
    using g'(3) landed fp ms sp fv fl47 bonus by auto
  then show ?thesis
    using fl gy contact fp ms sp fv fl47 g'(1) landed by blast
qed

text \<open>The bonus is computed in floating point. With \<open>speed = 1.3\<close> (the double nearest to it)
  and \<open>maxLandingSpeed = 2\<close> the difference \<open>2 - speed\<close> is exact, its product with 50 is
  \<open>35 - 10 / 2\<^sup>5\<^sup>2\<close> and rounds to the double 35: the code adds \<open>68 + 35 = 103\<close>, where the same
  formula over the reals gives \<open>68 + 34 = 102\<close>.\<close>

lemma landing_bonus_rounding:
  "\<exists>g'. collision double_ops (terrain_points ramp_one_pad) (landing_zones ramp_one_pad) touchdown_fast
            = Inr g' \<and>
        state g' = Landed \<and> score g' - score touchdown_fast = 103 \<and>
        \<lfloor>fuel (the_lander touchdown_fast)\<rfloor> +
          max 0 \<lfloor>(maxLandingSpeed (landing_zones ramp_one_pad ! 0)
                    - sqrt ((vx (the_lander touchdown_fast))\<^sup>2 + (vy (the_lander touchdown_fast))\<^sup>2)) * 50\<rfloor>
          = 102"
proof -
  let ?v = "5854679515581645 / 4503599627370496 :: real"
  have gy: "get_terrain_height double_ops 90 (terrain_points ramp_one_pad) 20 = Inr 513.5"
    by (simp add: ramp_one_pad_def get_terrain_height_def flatten_def
        ramp_profile_def py_index_def WIDTH_def Let_def fl_defs double_ops_simps round_double_exact)
  have bottom: "fl_add double_ops 500 15 = 515"
    by (simp add: fl_defs double_ops_simps round_double_exact)
  have rv: "round_double ?v = ?v"
    using round_double_binade[of 0 ?v] by (simp add: round_half_even_def powr_minus_divide)
  have sq: "sqrt (0\<^sup>2 + ?v\<^sup>2) = ?v" by simp
  have sp: "math_hypot double_ops 0 ?v = ?v"
    unfolding double_ops_simps sq by (rule rv)
  have d: "round_double (2 - ?v) = 3152519739159347 / 4503599627370496"
    using round_double_binade[of "-1" "2 - ?v"] by (simp add: round_half_even_def powr_minus_divide)
  have m: "round_double (3152519739159347 / 4503599627370496 * 50) = 35"
    using round_double_binade[of 5 "3152519739159347 / 4503599627370496 * 50"]
    by (simp add: round_half_even_def powr_minus_divide)
  have bonus: "fl_mul double_ops (fl_sub double_ops 2 ?v) 50 = 35"
    unfolding fl_defs double_ops_simps d by (rule m)
  have fz: "find_zone (landing_zones ramp_one_pad) 90 = Some (landing_zones ramp_one_pad ! 0)"
    by (simp add: ramp_one_pad_def LandingZone_def rect_left_def rect_right_def)
  have ms: "maxLandingSpeed (landing_zones ramp_one_pad ! 0) = 2"
    by (simp add: ramp_one_pad_def LandingZone_def)
  have f68: "py_int (2417870049944535 / 35184372088832) = 68" by (simp add: py_int_def)
  have b35: "py_int 35 = 35" by (simp add: py_int_def)
  have le: "?v \<le> 2" by simp
  have "collision double_ops (terrain_points ramp_one_pad) (landing_zones ramp_one_pad) touchdown_fast
      = Inr (touchdown_fast\<lparr>score := 103, state := Landed,
               the_lander := (the_lander touchdown_fast)\<lparr>vx := 0, vy := 0\<rparr>\<rparr>)"
    unfolding collision_def Let_def
    by (simp add: touchdown_fast_def gy bottom sp fz ms bonus f68 b35 le)
  moreover have "score touchdown_fast = 0" by (simp add: touchdown_fast_def)
  moreover have "\<lfloor>fuel (the_lander touchdown_fast)\<rfloor> +
          max 0 \<lfloor>(maxLandingSpeed (landing_zones ramp_one_pad ! 0)
                    - sqrt ((vx (the_lander touchdown_fast))\<^sup>2 + (vy (the_lander touchdown_fast))\<^sup>2)) * 50\<rfloor>
          = 102"
    unfolding ms by (simp add: touchdown_fast_def)
  ultimately show ?thesis by simp
qed

text \<open>The speed is the rounded \<^verbatim>\<open>math.hypot\<close>. For the doubles nearest to 1.2 and 1.6 the exact
  \<open>sqrt (vx\<^sup>2 + vy\<^sup>2)\<close> is slightly above 2, but the correctly rounded double is 2, so a pad with
  \<open>maxLandingSpeed = 2\<close> accepts the landing.\<close>

lemma landing_speed_rounding:
  "math_hypot double_ops (round_double 1.2) (round_double 1.6) = 2 \<and>
   2 < sqrt ((round_double 1.2)\<^sup>2 + (round_double 1.6)\<^sup>2)"
proof -
  let ?a = "5404319552844595 / 4503599627370496 :: real"
  let ?b = "7205759403792794 / 4503599627370496 :: real"
  have a: "round_double 1.2 = ?a"
    using round_double_binade[of 0 "1.2"] by (simp add: round_half_even_def powr_minus_divide)
  have b: "round_double 1.6 = ?b"
    using round_double_binade[of 0 "1.6"] by (simp add: round_half_even_def powr_minus_divide)
  define s where "s = sqrt (?a\<^sup>2 + ?b\<^sup>2)"
  have lo: "2 < s"
    unfolding s_def by (rule real_less_rsqrt) (simp add: power2_eq_square)
  have hi: "s < 2 + 1 / 4503599627370496"
    unfolding s_def by (rule real_less_lsqrt) (simp_all add: power2_eq_square)
  have fl: "\<lfloor>s * 2251799813685248\<rfloor> = 4503599627370496"
    using lo hi by (intro floor_unique) simp_all
  have r: "round_double s = 2"
    using round_double_binade[of 1 s] lo hi fl
    by (simp add: round_half_even_def powr_minus_divide)
  show ?thesis
    unfolding double_ops_simps a b using r lo unfolding s_def by (intro conjI)
qed

end
